theory Spec2Isabelle
  imports Complex_Main "HOL-Library.Sublist" "HOL-Library.Word"
begin

section \<open>Python strings, slices and ranges\<close>

text \<open>
  Strings are ASCII strings: one \<^typ>\<open>char\<close> per character, so that \<open>len\<close> is
  \<^const>\<open>length\<close> and \<open>encode("utf-8")\<close> is the identity.
\<close>

datatype py_error = ValueError | IndexError

text \<open>\<open>str.isspace\<close> on one ASCII character: TAB, LF, VT, FF, CR, FS, GS, RS, US, SPACE.\<close>

definition isspace :: "char \<Rightarrow> bool" where
  "isspace c = (let n = (of_char c :: nat) in (9 \<le> n \<and> n \<le> 13) \<or> (28 \<le> n \<and> n \<le> 32))"

text \<open>\<open>s.split()\<close>: the maximal runs of non-whitespace characters, in order.\<close>

fun split_ws :: "string \<Rightarrow> string \<Rightarrow> string list" where
  "split_ws cur [] = (if cur = [] then [] else [cur])"
| "split_ws cur (c # cs) =
     (if isspace c then (if cur = [] then split_ws [] cs else cur # split_ws [] cs)
      else split_ws (cur @ [c]) cs)"

definition str_split :: "string \<Rightarrow> string list" where
  "str_split s = split_ws [] s"

text \<open>\<open>sep.join(xs)\<close>.\<close>

fun join :: "string \<Rightarrow> string list \<Rightarrow> string" where
  "join sep [] = []"
| "join sep [x] = x"
| "join sep (x # y # ys) = x @ sep @ join sep (y # ys)"

text \<open>\<open>xs[a:b]\<close> for integers \<open>a\<close>, \<open>b\<close>: negative bounds count from the end, both are clamped.\<close>

definition slice_bound :: "nat \<Rightarrow> int \<Rightarrow> nat" where
  "slice_bound n a = (if a < 0 then nat (max 0 (a + int n)) else min n (nat a))"

definition py_slice :: "'a list \<Rightarrow> int \<Rightarrow> int \<Rightarrow> 'a list" where
  "py_slice xs a b =
     (let lo = slice_bound (length xs) a; hi = slice_bound (length xs) b
      in take (hi - lo) (drop lo xs))"

text \<open>\<open>range(start, stop, step)\<close>: a zero step raises \<open>ValueError\<close>.\<close>

function range_up :: "int \<Rightarrow> int \<Rightarrow> int \<Rightarrow> int list" where
  "range_up i stop step = (if 0 < step \<and> i < stop then i # range_up (i + step) stop step else [])"
  by pat_completeness auto
termination
  by (relation "measure (\<lambda>(i, stop, step). nat (stop - i))") auto

function range_down :: "int \<Rightarrow> int \<Rightarrow> int \<Rightarrow> int list" where
  "range_down i stop step = (if step < 0 \<and> stop < i then i # range_down (i + step) stop step else [])"
  by pat_completeness auto
termination
  by (relation "measure (\<lambda>(i, stop, step). nat (i - stop))") auto

definition py_range :: "int \<Rightarrow> int \<Rightarrow> int \<Rightarrow> py_error + int list" where
  "py_range start stop step =
     (if step = 0 then Inl ValueError
      else if 0 < step then Inr (range_up start stop step)
      else Inr (range_down start stop step))"

section \<open>Chunks\<close>

text \<open>
  A chunk is a Python dict from field names to values; equality of maps is equality of
  dicts.
\<close>

datatype field = S string | I int | B bool | NoneVal

type_synonym chunk = "string \<rightharpoonup> field"

subsection \<open>\<open>retriever/ingest.py\<close>: \<open>_chunk\<close>\<close>

function chunk_loop :: "string list \<Rightarrow> int \<Rightarrow> int \<Rightarrow> int \<Rightarrow> string list \<Rightarrow> string list" where
  "chunk_loop words tok overlap i out =
     (if i < int (length words)
      then chunk_loop words tok overlap (i + max (tok - overlap) 1)
             (out @ [join '' '' (py_slice words i (i + tok))])
      else out)"
  by pat_completeness auto
termination
  by (relation "measure (\<lambda>(words, tok, overlap, i, out). nat (int (length words) - i))") auto

definition ingest_chunk :: "string \<Rightarrow> int \<Rightarrow> int \<Rightarrow> string list" where
  "ingest_chunk md tok overlap =
     (let words = str_split md
      in if length words < 50 then [] else chunk_loop words tok overlap 0 [])"

subsection \<open>\<open>document_intelligence.py\<close>: \<open>SmartChunker.chunk_sliding_window\<close>\<close>

definition sliding_chunk :: "string list \<Rightarrow> int \<Rightarrow> int \<Rightarrow> chunk" where
  "sliding_chunk words chunk_size i =
     [''text'' \<mapsto> S (join '' '' (py_slice words i (i + chunk_size))),
      ''type'' \<mapsto> S ''sliding_window'',
      ''start_idx'' \<mapsto> I i,
      ''end_idx'' \<mapsto> I (min (i + chunk_size) (int (length words)))]"

definition chunk_sliding_window :: "string \<Rightarrow> int \<Rightarrow> int \<Rightarrow> py_error + chunk list" where
  "chunk_sliding_window content chunk_size overlap =
     (let words = str_split content
      in case py_range 0 (int (length words)) (chunk_size - overlap) of
           Inl e \<Rightarrow> Inl e
         | Inr is \<Rightarrow> Inr (map (sliding_chunk words chunk_size) is))"

text \<open>Document order of two chunks: by their \<open>start_idx\<close> fields.\<close>

definition start_before :: "chunk \<Rightarrow> chunk \<Rightarrow> bool" where
  "start_before a b = (case (a ''start_idx'', b ''start_idx'') of
       (Some (I i), Some (I j)) \<Rightarrow> i < j | _ \<Rightarrow> False)"


section \<open>\<open>document_intelligence.py\<close>: the document classifier\<close>

text \<open>\<open>str.lower\<close> on ASCII.\<close>

definition lower_char :: "char \<Rightarrow> char" where
  "lower_char c = (let n = (of_char c :: nat) in if 65 \<le> n \<and> n \<le> 90 then char_of (n + 32) else c)"

definition lower :: "string \<Rightarrow> string" where
  "lower s = map lower_char s"

text \<open>\<open>sub in s\<close> for strings.\<close>

fun contains :: "string \<Rightarrow> string \<Rightarrow> bool" where
  "contains sub [] = (sub = [])"
| "contains sub (c # cs) = (prefix sub (c # cs) \<or> contains sub cs)"

text \<open>\<open>s.split(sep)\<close> for a one-character separator.\<close>

fun split_on :: "char \<Rightarrow> string \<Rightarrow> string \<Rightarrow> string list" where
  "split_on sep cur [] = [cur]"
| "split_on sep cur (c # cs) =
     (if c = sep then cur # split_on sep [] cs else split_on sep (cur @ [c]) cs)"

text \<open>
  \<open>Path(p).name\<close> and \<open>Path(p).suffix\<close> of a POSIX path: the last component that is
  neither empty nor \<open>.\<close>, and that name from its last dot on, when the dot is neither its
  first nor its last character.
\<close>

definition path_name :: "string \<Rightarrow> string" where
  "path_name p =
     (case filter (\<lambda>x. x \<noteq> [] \<and> x \<noteq> ''.'') (split_on CHR ''/'' [] p) of
        [] \<Rightarrow> [] | ps \<Rightarrow> last ps)"

definition rfind :: "char \<Rightarrow> string \<Rightarrow> nat option" where
  "rfind c s = (case filter (\<lambda>i. s ! i = c) [0..<length s] of [] \<Rightarrow> None | is \<Rightarrow> Some (last is))"

definition path_suffix :: "string \<Rightarrow> string" where
  "path_suffix p =
     (let name = path_name p
      in case rfind CHR ''.'' name of
           None \<Rightarrow> []
         | Some i \<Rightarrow> if 0 < i \<and> i < length name - 1 then drop i name else [])"

record category_config =
  cat_patterns :: "string list"
  cat_extensions :: "string list"
  cat_chunk_strategy :: string
  cat_chunk_size :: int

definition categories :: "(string \<times> category_config) list" where
  "categories =
    [(''technical'', \<lparr>cat_patterns = [''manual'', ''guide'', ''documentation'', ''readme'', ''install'', ''setup'', ''config''],
        cat_extensions = [''.md'', ''.txt'', ''.pdf''], cat_chunk_strategy = ''section_aware'', cat_chunk_size = 1000\<rparr>),
     (''conversation'', \<lparr>cat_patterns = [''transcript'', ''chat'', ''conversation'', ''meeting'', ''call'', ''interview''],
        cat_extensions = [''.txt'', ''.json'', ''.csv''], cat_chunk_strategy = ''conversation_aware'', cat_chunk_size = 800\<rparr>),
     (''correspondence'', \<lparr>cat_patterns = [''email'', ''memo'', ''letter'', ''message''],
        cat_extensions = [''.eml'', ''.msg'', ''.txt''], cat_chunk_strategy = ''message_boundary'', cat_chunk_size = 600\<rparr>),
     (''reference'', \<lparr>cat_patterns = [''api'', ''reference'', ''specification'', ''schema''],
        cat_extensions = [''.json'', ''.yaml'', ''.md''], cat_chunk_strategy = ''endpoint_aware'', cat_chunk_size = 500\<rparr>),
     (''literature'', \<lparr>cat_patterns = [''book'', ''chapter'', ''article'', ''paper'', ''journal''],
        cat_extensions = [''.epub'', ''.pdf'', ''.txt''], cat_chunk_strategy = ''chapter_aware'', cat_chunk_size = 1200\<rparr>),
     (''data'', \<lparr>cat_patterns = [''report'', ''analysis'', ''statistics'', ''metrics'', ''log''],
        cat_extensions = [''.csv'', ''.json'', ''.log'', ''.txt''], cat_chunk_strategy = ''record_aware'', cat_chunk_size = 400\<rparr>),
     (''media'', \<lparr>cat_patterns = [''subtitle'', ''caption'', ''lyrics'', ''script''],
        cat_extensions = [''.srt'', ''.vtt'', ''.txt''], cat_chunk_strategy = ''time_aware'', cat_chunk_size = 300\<rparr>)]"

definition get_extractors :: "string \<Rightarrow> string list" where
  "get_extractors category =
     (case map_of
        [(''technical'', [''version'', ''product'', ''sections'']),
         (''conversation'', [''participants'', ''datetime'', ''topics'']),
         (''correspondence'', [''sender'', ''recipient'', ''date'', ''subject'']),
         (''reference'', [''endpoints'', ''methods'', ''parameters'']),
         (''literature'', [''author'', ''title'', ''chapters'']),
         (''data'', [''date_range'', ''metrics'', ''summary'']),
         (''media'', [''duration'', ''speakers'', ''timestamps''])] category of
        None \<Rightarrow> [''basic''] | Some es \<Rightarrow> es)"

record doc_category =
  dc_category :: string
  dc_confidence :: rat
  dc_chunk_strategy :: string
  dc_chunk_size :: int
  dc_metadata_extractors :: "string list"

text \<open>The body of the scoring loop for one category.\<close>

definition category_score :: "category_config \<Rightarrow> string \<Rightarrow> string \<Rightarrow> int" where
  "category_score config filepath content =
     (let filename_lower = lower (path_name filepath);
          score = fold (\<lambda>pattern score. if contains pattern filename_lower then score + 10 else score)
                    (cat_patterns config) 0;
          score = (if lower (path_suffix filepath) \<in> set (cat_extensions config) then score + 5 else score);
          content_sample = lower (take 1000 content)
      in fold (\<lambda>pattern score. if contains pattern content_sample then score + 3 else score)
           (cat_patterns config) score)"

text \<open>\<open>max(items, key=lambda x: x[1])\<close>: the first item whose score is maximal.\<close>

fun max_item :: "(string \<times> int) \<Rightarrow> (string \<times> int) list \<Rightarrow> (string \<times> int)" where
  "max_item best [] = best"
| "max_item best (x # xs) = max_item (if snd best < snd x then x else best) xs"

definition categorize_document :: "string \<Rightarrow> string \<Rightarrow> doc_category" where
  "categorize_document filepath content =
     (let scores = map (\<lambda>(category, config). (category, category_score config filepath content)) categories;
          best_category = max_item (hd scores) (tl scores)
      in if snd best_category < 5
         then \<lparr>dc_category = ''general'', dc_confidence = 3 / 10, dc_chunk_strategy = ''sliding_window'',
               dc_chunk_size = 800, dc_metadata_extractors = [''basic'']\<rparr>
         else (case map_of categories (fst best_category) of
                 Some config \<Rightarrow>
                   \<lparr>dc_category = fst best_category,
                    dc_confidence = min (of_int (snd best_category) / 20) 1,
                    dc_chunk_strategy = cat_chunk_strategy config,
                    dc_chunk_size = cat_chunk_size config,
                    dc_metadata_extractors = get_extractors (fst best_category)\<rparr>))"

text \<open>The weighting in the words of the specification.\<close>

definition weighted_score :: "category_config \<Rightarrow> string \<Rightarrow> string \<Rightarrow> int" where
  "weighted_score config filepath content =
     10 * int (length (filter (\<lambda>p. contains p (lower (path_name filepath))) (cat_patterns config)))
     + (if lower (path_suffix filepath) \<in> set (cat_extensions config) then 5 else 0)
     + 3 * int (length (filter (\<lambda>p. contains p (lower (take 1000 content))) (cat_patterns config)))"

definition highest_score :: "string \<Rightarrow> string \<Rightarrow> int" where
  "highest_score filepath content =
     Max ((\<lambda>(category, config). weighted_score config filepath content) ` set categories)"

text \<open>The \<open>scores\<close> dict of \<open>categorize_document\<close>, in insertion order.\<close>

definition scores_of :: "string \<Rightarrow> string \<Rightarrow> (string \<times> int) list" where
  "scores_of filepath content =
     map (\<lambda>(category, config). (category, category_score config filepath content)) categories"


section \<open>\<open>retriever/search.py\<close>: hybrid retrieval\<close>

text \<open>
  \<open>np.argsort(scores)\<close>: the indices of the scores in ascending order of score (ties in
  index order). The scores are floats in the source; any linear order serves here. The
  scoring of the external rankers (BM25, embedding similarity) is a parameter giving the
  score of the document at an index, for a query and a corpus.
\<close>

definition argsort :: "'s::linorder list \<Rightarrow> nat list" where
  "argsort scores = sort_key (\<lambda>i. scores ! i) [0..<length scores]"

text \<open>\<open>_bm25_rank\<close> and \<open>_top_k_embed\<close>: \<open>list(np.argsort(scores)[::-1][:top_k])\<close>.\<close>

definition top_k_rank :: "(string \<Rightarrow> string list \<Rightarrow> nat \<Rightarrow> 's::linorder) \<Rightarrow> string \<Rightarrow> string list \<Rightarrow> nat \<Rightarrow> nat list" where
  "top_k_rank score query corpus top_k =
     take top_k (rev (argsort (map (score query corpus) [0..<length corpus])))"

text \<open>\<open>list(dict.fromkeys(xs))\<close>: the keys in the order of their first insertion.\<close>

definition fromkeys :: "'a list \<Rightarrow> 'a list" where
  "fromkeys xs = fold (\<lambda>x keys. if x \<in> set keys then keys else keys @ [x]) xs []"

record retrieval_cfg =
  k_bm25 :: nat
  k_embed :: nat
  combine_top_k :: nat

text \<open>
  The collection of the index store: its records (identifier, document, metadata) in the
  order in which \<open>coll.get\<close> returns them. The second component of the result of
  \<open>search\<close> lists the rankers that were invoked.
\<close>

type_synonym collection = "(string \<times> string \<times> (string \<rightharpoonup> field)) list"

datatype ranker = Lexical | Semantic

definition search ::
  "(string \<Rightarrow> string list \<Rightarrow> nat \<Rightarrow> 's::linorder) \<Rightarrow> (string \<Rightarrow> string list \<Rightarrow> nat \<Rightarrow> 't::linorder) \<Rightarrow>
   retrieval_cfg \<Rightarrow> collection \<Rightarrow> string \<Rightarrow> (string \<times> string \<times> (string \<rightharpoonup> field)) list \<times> ranker list" where
  "search bm25_score embed_sim cfg coll question =
     (let count = length coll
      in if count = 0 then ([], [])
         else
           let res = take (min 200 count) coll;
               docs = map (\<lambda>r. fst (snd r)) res;
               ids = map fst res;
               metadatas = map (\<lambda>r. snd (snd r)) res
           in if docs = [] then ([], [])
              else
                let bm_idx = top_k_rank bm25_score question docs (min (k_bm25 cfg) (length docs));
                    em_idx = top_k_rank embed_sim question docs (min (k_embed cfg) (length docs));
                    merged = take (combine_top_k cfg) (fromkeys (bm_idx @ em_idx))
                in (map (\<lambda>i. (ids ! i, docs ! i,
                                if i < length metadatas then metadatas ! i else Map.empty)) merged,
                    [Lexical, Semantic]))"

text \<open>
  The fusion in the words of the specification. The snapshot of the store is the part
  that \<open>coll.get\<close> returns; the scores of a ranker are those of the documents of the
  snapshot, in their order. A top-K list of the scores holds \<open>K\<close> indices (all of them when
  there are fewer than \<open>K\<close>), each once, in descending order of score, and no index left
  out scores higher than one of the list. The walk \<open>keep_first\<close> keeps the first
  occurrence of each chunk identifier.
\<close>

definition snapshot :: "collection \<Rightarrow> collection" where
  "snapshot coll = take (min 200 (length coll)) coll"

fun keep_first :: "('a \<Rightarrow> 'k) \<Rightarrow> 'k list \<Rightarrow> 'a list \<Rightarrow> 'a list" where
  "keep_first key seen [] = []"
| "keep_first key seen (x # xs) =
     (if key x \<in> set seen then keep_first key seen xs
      else x # keep_first key (key x # seen) xs)"

definition snapshot_scores ::
  "(string \<Rightarrow> string list \<Rightarrow> nat \<Rightarrow> 's::linorder) \<Rightarrow> string \<Rightarrow> collection \<Rightarrow> 's list" where
  "snapshot_scores score question coll =
     map (score question (map (\<lambda>r. fst (snd r)) (snapshot coll))) [0..<length (snapshot coll)]"

definition is_top_k :: "'s::linorder list \<Rightarrow> nat \<Rightarrow> nat list \<Rightarrow> bool" where
  "is_top_k scores k idx \<longleftrightarrow>
     length idx = min k (length scores) \<and> distinct idx \<and>
     (\<forall>i \<in> set idx. i < length scores) \<and>
     sorted_wrt (\<lambda>i j. scores ! j \<le> scores ! i) idx \<and>
     (\<forall>j \<in> set [0..<length scores]. j \<notin> set idx \<longrightarrow> (\<forall>i \<in> set idx. scores ! j \<le> scores ! i))"

definition fusion :: "collection \<Rightarrow> nat \<Rightarrow> nat list \<Rightarrow> nat list \<Rightarrow> collection" where
  "fusion coll top_k lexical semantic =
     take top_k (keep_first fst [] (map (\<lambda>i. snapshot coll ! i) (lexical @ semantic)))"

text \<open>A store of three chunks and two rankers for the examples.\<close>

definition three_chunks :: collection where
  "three_chunks = [(''id1'', ''alpha'', Map.empty), (''id2'', ''be'', Map.empty), (''id3'', ''gam'', Map.empty)]"

definition by_length :: "string \<Rightarrow> string list \<Rightarrow> nat \<Rightarrow> nat" where
  "by_length query corpus i = length (corpus ! i)"

definition by_shortness :: "string \<Rightarrow> string list \<Rightarrow> nat \<Rightarrow> nat" where
  "by_shortness query corpus i = 10 - length (corpus ! i)"


section \<open>\<open>ingestion_manager.py\<close>: the task registry\<close>

datatype ingestion_status =
  IDLE | PREPARING | SCANNING | PROCESSING | INDEXING | COMPLETED | FAILED | CANCELLED

text \<open>
  An \<open>IngestionTask\<close>, with the fields that the registry reads. The manager holds the
  dict \<open>tasks\<close> and the single reference \<open>active_task\<close>; a reference to a task object is
  its identifier, the key under which the same object is stored in \<open>tasks\<close>.
\<close>

record ingestion_task =
  task_id :: string
  task_profile_name :: string
  task_status :: ingestion_status
  task_cancel_requested :: bool

record manager =
  tasks :: "string \<rightharpoonup> ingestion_task"
  active_task :: "string option"

definition terminal :: "ingestion_status \<Rightarrow> bool" where
  "terminal s = (s \<in> {COMPLETED, FAILED, CANCELLED})"

definition new_task :: "string \<Rightarrow> string \<Rightarrow> ingestion_task" where
  "new_task tid profile =
     \<lparr>task_id = tid, task_profile_name = profile, task_status = PREPARING,
      task_cancel_requested = False\<rparr>"

text \<open>
  \<open>start_ingestion\<close>. The fresh identifier \<open>str(uuid.uuid4())\<close> is an argument. The
  background thread that the call starts is not part of the call: it advances the status
  of its task later.
\<close>

definition start_ingestion :: "manager \<Rightarrow> string \<Rightarrow> string \<Rightarrow> string \<times> manager" where
  "start_ingestion m profile fresh_id =
     (let create = (fresh_id, \<lparr>tasks = (tasks m)(fresh_id \<mapsto> new_task fresh_id profile),
                               active_task = Some fresh_id\<rparr>)
      in case active_task m of
           None \<Rightarrow> create
         | Some a \<Rightarrow>
             (case tasks m a of
                None \<Rightarrow> create
              | Some t \<Rightarrow>
                  if task_profile_name t = profile \<and> \<not> terminal (task_status t)
                  then (task_id t, m) else create))"

text \<open>\<open>cancel_task\<close>.\<close>

definition cancel_task :: "manager \<Rightarrow> string \<Rightarrow> bool \<times> manager" where
  "cancel_task m tid =
     (case tasks m tid of
        Some t \<Rightarrow>
          if task_status t \<in> {SCANNING, PROCESSING, INDEXING}
          then (True, m\<lparr>tasks := (tasks m)(tid \<mapsto> t\<lparr>task_cancel_requested := True\<rparr>)\<rparr>)
          else (False, m)
      | None \<Rightarrow> (False, m))"

text \<open>The tasks of a profile that are in a non-terminal state, among given identifiers.\<close>

definition running_for :: "manager \<Rightarrow> string \<Rightarrow> string list \<Rightarrow> string list" where
  "running_for m profile ids =
     filter (\<lambda>i. case tasks m i of
                   Some t \<Rightarrow> task_profile_name t = profile \<and> \<not> terminal (task_status t)
                 | None \<Rightarrow> False) ids"

definition empty_manager :: manager where
  "empty_manager = \<lparr>tasks = Map.empty, active_task = None\<rparr>"


section \<open>\<open>incremental_updater.py\<close>: change detection\<close>

text \<open>
  \<open>int(s)\<close> on a header value: optional surrounding whitespace, an optional sign and
  decimal digits (digit-group underscores are not modelled); \<open>None\<close> is \<open>ValueError\<close>.
\<close>

definition is_digit :: "char \<Rightarrow> bool" where
  "is_digit c = (let n = (of_char c :: nat) in 48 \<le> n \<and> n \<le> 57)"

definition strip :: "string \<Rightarrow> string" where
  "strip s = rev (dropWhile isspace (rev (dropWhile isspace s)))"

definition digits_value :: "string \<Rightarrow> int" where
  "digits_value ds = fold (\<lambda>c v. 10 * v + (int (of_char c) - 48)) ds 0"

definition py_int :: "string \<Rightarrow> int option" where
  "py_int s =
     (let t = strip s;
          (neg, ds) = (case t of
                         c # cs \<Rightarrow> if c = CHR ''-'' then (True, cs)
                                   else if c = CHR ''+'' then (False, cs) else (False, t)
                       | [] \<Rightarrow> (False, []))
      in if ds \<noteq> [] \<and> list_all is_digit ds
         then Some (if neg then - digits_value ds else digits_value ds) else None)"

text \<open>
  A row of the table \<open>document_metadata\<close> (the columns that \<open>check_url_changes\<close> selects),
  the headers of a \<open>HEAD\<close> response that it reads, and the network: a request returns
  \<open>Inl msg\<close> when it raises an exception whose text is \<open>msg\<close>.
\<close>

record document_metadata =
  dm_content_hash :: string
  dm_last_modified :: "string option"
  dm_etag :: "string option"
  dm_content_length :: "int option"

record head_headers =
  hd_etag :: "string option"
  hd_last_modified :: "string option"
  hd_content_length :: "string option"

record network =
  http_head :: "string \<Rightarrow> string + head_headers"
  http_get_text :: "string \<Rightarrow> string + string"

text \<open>Truth value of an optional string: neither \<open>None\<close> nor empty.\<close>

definition truthy :: "string option \<Rightarrow> bool" where
  "truthy v = (case v of None \<Rightarrow> False | Some s \<Rightarrow> s \<noteq> [])"

record new_metadata =
  nm_content_hash :: string
  nm_last_modified :: "string option"
  nm_etag :: "string option"
  nm_content_length :: "int option"
  nm_content :: string

record changes =
  ch_url :: string
  ch_has_changed :: "bool option"
  ch_is_new :: bool
  ch_confidence :: rat
  ch_old_hash :: "string option"
  ch_new_hash :: "string option"
  ch_signals :: "string list option"
  ch_metadata :: "new_metadata option"
  ch_error :: "string option"

text \<open>The \<open>except\<close> clause: the error text is recorded and \<open>has_changed\<close> becomes unknown.\<close>

definition failed :: "changes \<Rightarrow> string \<Rightarrow> changes" where
  "failed ch msg = ch\<lparr>ch_error := Some msg, ch_has_changed := None\<rparr>"

definition int_error :: "string \<Rightarrow> string" where
  "int_error s = ''invalid literal for int() with base 10: '' @ s"

text \<open>The three header signals, in the order of the source; \<open>Inl\<close> when \<open>int\<close> raises.\<close>

definition header_signals ::
  "document_metadata option \<Rightarrow> head_headers \<Rightarrow> string + (string \<times> rat) list" where
  "header_signals existing headers =
     (let signals = [];
          signals = (case existing of
                       Some row \<Rightarrow>
                         if truthy (hd_etag headers) \<and> hd_etag headers \<noteq> dm_etag row
                         then signals @ [(''etag'', 9 / 10)] else signals
                     | None \<Rightarrow> signals);
          signals = (case existing of
                       Some row \<Rightarrow>
                         if truthy (hd_last_modified headers) \<and> hd_last_modified headers \<noteq> dm_last_modified row
                         then signals @ [(''last_modified'', 8 / 10)] else signals
                     | None \<Rightarrow> signals)
      in case existing of
           Some row \<Rightarrow>
             if truthy (hd_content_length headers)
             then (case py_int (the (hd_content_length headers)) of
                     None \<Rightarrow> Inl (int_error (the (hd_content_length headers)))
                   | Some n \<Rightarrow>
                       if Some n \<noteq> dm_content_length row
                       then Inr (signals @ [(''content_length'', 5 / 10)]) else Inr signals)
             else Inr signals
         | None \<Rightarrow> Inr signals)"

text \<open>
  \<open>check_url_changes\<close>. The stable content hash \<open>calculate_content_hash\<close> (normalisation,
  removal of volatile substrings by regular expressions, SHA-256) is the parameter
  \<open>content_hash\<close>; the metadata table is the map \<open>db\<close>.
\<close>

definition check_url_changes ::
  "(string \<Rightarrow> string) \<Rightarrow> (string \<rightharpoonup> document_metadata) \<Rightarrow> network \<Rightarrow> string \<Rightarrow> changes" where
  "check_url_changes content_hash db net url =
     (let existing = db url;
          changes = \<lparr>ch_url = url, ch_has_changed = Some False, ch_is_new = (existing = None),
                     ch_confidence = 0, ch_old_hash = None, ch_new_hash = None,
                     ch_signals = None, ch_metadata = None, ch_error = None\<rparr>
      in case http_head net url of
           Inl msg \<Rightarrow> failed changes msg
         | Inr headers \<Rightarrow>
             (case header_signals existing headers of
                Inl msg \<Rightarrow> failed changes msg
              | Inr signals \<Rightarrow>
                  if signals \<noteq> [] \<or> ch_is_new changes
                  then
                    (case http_get_text net url of
                       Inl msg \<Rightarrow> failed changes msg
                     | Inr content \<Rightarrow>
                         let current_hash = content_hash content;
                             (signals, changes) =
                               (case existing of
                                  Some row \<Rightarrow>
                                    if current_hash \<noteq> dm_content_hash row
                                    then (signals @ [(''content_hash'', 1)],
                                          changes\<lparr>ch_has_changed := Some True,
                                                  ch_old_hash := Some (dm_content_hash row),
                                                  ch_new_hash := Some current_hash\<rparr>)
                                    else (signals, changes\<lparr>ch_has_changed := Some False\<rparr>)
                                | None \<Rightarrow>
                                    (signals, changes\<lparr>ch_has_changed := Some True,
                                                       ch_new_hash := Some current_hash\<rparr>));
                             changes =
                               (if signals \<noteq> []
                                then changes\<lparr>ch_confidence := Max (set (map snd signals)),
                                             ch_signals := Some (map fst signals)\<rparr>
                                else changes)
                         in if truthy (hd_content_length headers)
                            then (case py_int (the (hd_content_length headers)) of
                                    None \<Rightarrow> failed changes (int_error (the (hd_content_length headers)))
                                  | Some n \<Rightarrow>
                                      changes\<lparr>ch_metadata := Some
                                        \<lparr>nm_content_hash = current_hash,
                                         nm_last_modified = hd_last_modified headers,
                                         nm_etag = hd_etag headers,
                                         nm_content_length = Some n,
                                         nm_content = content\<rparr>\<rparr>)
                            else changes\<lparr>ch_metadata := Some
                                   \<lparr>nm_content_hash = current_hash,
                                    nm_last_modified = hd_last_modified headers,
                                    nm_etag = hd_etag headers,
                                    nm_content_length = None,
                                    nm_content = content\<rparr>\<rparr>)
                  else changes))"

text \<open>
  \<open>scan_for_changes\<close> with \<open>_log_change\<close>: the state is the categorised URL lists and the
  table \<open>change_log\<close> (without its clock column \<open>detected_at\<close>).
\<close>

record change_record =
  cr_url :: string
  cr_change_type :: string
  cr_old_hash :: "string option"
  cr_new_hash :: "string option"

record scan_results =
  sr_unchanged :: "string list"
  sr_updated :: "string list"
  sr_new :: "string list"
  sr_errors :: "string list"

definition scan_url ::
  "(string \<Rightarrow> string) \<Rightarrow> (string \<rightharpoonup> document_metadata) \<Rightarrow> network \<Rightarrow> string \<Rightarrow>
   scan_results \<times> change_record list \<Rightarrow> scan_results \<times> change_record list" where
  "scan_url content_hash db net url st =
     (let (results, change_log) = st;
          change_info = check_url_changes content_hash db net url
      in if truthy (ch_error change_info)
         then (results\<lparr>sr_errors := sr_errors results @ [url]\<rparr>, change_log)
         else if ch_is_new change_info
         then (results\<lparr>sr_new := sr_new results @ [url]\<rparr>, change_log)
         else if ch_has_changed change_info = Some True
         then (results\<lparr>sr_updated := sr_updated results @ [url]\<rparr>,
               change_log @ [\<lparr>cr_url = url, cr_change_type = ''content'',
                               cr_old_hash = ch_old_hash change_info,
                               cr_new_hash = ch_new_hash change_info\<rparr>])
         else (results\<lparr>sr_unchanged := sr_unchanged results @ [url]\<rparr>, change_log))"

definition scan_for_changes ::
  "(string \<Rightarrow> string) \<Rightarrow> (string \<rightharpoonup> document_metadata) \<Rightarrow> network \<Rightarrow> string list \<Rightarrow>
   change_record list \<Rightarrow> scan_results \<times> change_record list" where
  "scan_for_changes content_hash db net urls change_log =
     fold (scan_url content_hash db net) urls
       (\<lparr>sr_unchanged = [], sr_updated = [], sr_new = [], sr_errors = []\<rparr>, change_log)"


section \<open>\<open>document_intelligence.py\<close>: the chunking strategies of \<open>SmartChunker\<close>\<close>

text \<open>
  The regular expressions of the strategies are named, and the regular-expression engine
  is a parameter: \<open>re_split p s\<close> is \<open>re.split\<close> of the text \<open>s\<close> at the matches of \<open>p\<close>
  (the matched separators included, as the patterns are in a capture group),
  \<open>re_search p s\<close> tells whether \<open>p\<close> matches somewhere in \<open>s\<close>, \<open>re_match p s\<close> whether it
  matches at the start of \<open>s\<close>, and \<open>re_findall_turns s\<close> is the list of the pairs
  (speaker, text) that \<open>re.findall\<close> finds with the turn pattern.
  \<^item> \<open>SectionPat\<close>: a Markdown header line, a line of \<open>=\<close> or of \<open>-\<close>, or three or more
    newlines.
  \<^item> \<open>MessagePat\<close>: \<open>From:\<close>, \<open>Subject:\<close>, \<open>Date:\<close>, three or more \<open>-\<close> or \<open>=\<close>, or three
    or more newlines.
  \<^item> \<open>EndpointPat 0, 1, 2\<close>: an HTTP method and a path at the start of a line; a
    third-level header ending in \<open>Endpoint\<close>; a second-level header that is a path.
  \<^item> \<open>ChapterPat 0, 1, 2\<close>: \<open>Chapter\<close> and a number; \<open>CHAPTER\<close> and a Roman numeral; a
    number, a dot and a capital letter, each at the start of a line.
  \<^item> \<open>TimestampPat 0, 1, 2\<close>: \<open>HH:MM:SS\<close>; \<open>[MM:SS]\<close>; \<open>MM:SS\<close>.
\<close>

datatype pattern = SectionPat | MessagePat | EndpointPat nat | ChapterPat nat | TimestampPat nat

record regex =
  re_split :: "pattern \<Rightarrow> string \<Rightarrow> string list"
  re_search :: "pattern \<Rightarrow> string \<Rightarrow> bool"
  re_match :: "pattern \<Rightarrow> string \<Rightarrow> bool"
  re_findall_turns :: "string \<Rightarrow> (string \<times> string) list"

text \<open>\<open>xs[a:]\<close>.\<close>

definition py_slice_from :: "'a list \<Rightarrow> int \<Rightarrow> 'a list" where
  "py_slice_from xs a = drop (slice_bound (length xs) a) xs"

subsection \<open>\<open>chunk_by_sections\<close>\<close>

definition sections_step ::
  "int \<Rightarrow> int \<Rightarrow> string \<Rightarrow> chunk list \<times> string list \<times> int \<Rightarrow> chunk list \<times> string list \<times> int" where
  "sections_step chunk_size overlap section st =
     (let (chunks, current_chunk, current_size) = st;
          section_words = str_split section;
          section_size = int (length section_words);
          (chunks, current_chunk, current_size) =
            (if current_size + section_size > chunk_size \<and> current_chunk \<noteq> []
             then
               (let kept = (if overlap > 0 \<and> int (length current_chunk) > overlap
                            then py_slice_from current_chunk (- overlap) else [])
                in (chunks @ [[''text'' \<mapsto> S (join '' '' current_chunk), ''type'' \<mapsto> S ''section'',
                               ''boundary'' \<mapsto> S ''section_end'']],
                    kept, int (length kept)))
             else (chunks, current_chunk, current_size))
      in (chunks, current_chunk @ section_words, current_size + section_size))"

definition chunk_by_sections :: "regex \<Rightarrow> string \<Rightarrow> int \<Rightarrow> int \<Rightarrow> py_error + chunk list" where
  "chunk_by_sections rx content chunk_size overlap =
     (let sections = re_split rx SectionPat content;
          (chunks, current_chunk, current_size) =
            fold (sections_step chunk_size overlap) sections ([], [], 0);
          chunks = (if current_chunk \<noteq> []
                    then chunks @ [[''text'' \<mapsto> S (join '' '' current_chunk), ''type'' \<mapsto> S ''section'',
                                    ''boundary'' \<mapsto> S ''document_end'']]
                    else chunks)
      in if chunks \<noteq> [] then Inr chunks else chunk_sliding_window content chunk_size overlap)"

subsection \<open>\<open>chunk_by_conversation\<close>\<close>

text \<open>
  The set \<open>current_speakers\<close> is kept as the list of its elements in insertion order;
  Python joins the elements of a set in an unspecified order.
\<close>

definition conversation_chunk :: "string list \<Rightarrow> string list \<Rightarrow> chunk" where
  "conversation_chunk current_chunk current_speakers =
     [''text'' \<mapsto> S (join [CHR 0x0A] current_chunk), ''type'' \<mapsto> S ''conversation'',
      ''speakers'' \<mapsto> S (join '', '' current_speakers)]"

definition turn_step ::
  "int \<Rightarrow> int \<Rightarrow> string \<times> string \<Rightarrow> chunk list \<times> string list \<times> string list \<times> int \<Rightarrow>
   chunk list \<times> string list \<times> string list \<times> int" where
  "turn_step chunk_size overlap turn st =
     (let (speaker, text) = turn;
          (chunks, current_chunk, current_speakers, current_size) = st;
          turn_size = int (length (str_split text));
          (chunks, current_chunk, current_speakers, current_size) =
            (if current_size + turn_size > chunk_size \<and> current_chunk \<noteq> []
             then
               (if overlap > 0
                then (chunks @ [conversation_chunk current_chunk current_speakers],
                      [speaker @ '': '' @ py_slice text 0 overlap], [speaker], min overlap turn_size)
                else (chunks @ [conversation_chunk current_chunk current_speakers], [], [], 0))
             else (chunks, current_chunk, current_speakers, current_size))
      in (chunks, current_chunk @ [speaker @ '': '' @ text],
          (if speaker \<in> set current_speakers then current_speakers else current_speakers @ [speaker]),
          current_size + turn_size))"

definition chunk_by_conversation :: "regex \<Rightarrow> string \<Rightarrow> int \<Rightarrow> int \<Rightarrow> py_error + chunk list" where
  "chunk_by_conversation rx content chunk_size overlap =
     (let turns = re_findall_turns rx content
      in if turns = [] then chunk_sliding_window content chunk_size overlap
         else
           (let (chunks, current_chunk, current_speakers, current_size) =
                  fold (turn_step chunk_size overlap) turns ([], [], [], 0)
            in Inr (if current_chunk \<noteq> []
                    then chunks @ [conversation_chunk current_chunk current_speakers]
                    else chunks)))"

subsection \<open>\<open>chunk_by_messages\<close>\<close>

definition message_step ::
  "int \<Rightarrow> string \<Rightarrow> chunk list \<times> string list \<times> int \<Rightarrow> chunk list \<times> string list \<times> int" where
  "message_step chunk_size msg st =
     (let (chunks, current_chunk, current_size) = st;
          msg_size = int (length (str_split msg));
          (chunks, current_chunk, current_size) =
            (if current_size + msg_size > chunk_size \<and> current_chunk \<noteq> []
             then (chunks @ [[''text'' \<mapsto> S (join '' '' current_chunk), ''type'' \<mapsto> S ''message'',
                              ''boundary'' \<mapsto> S ''message_end'']], [], 0)
             else (chunks, current_chunk, current_size))
      in if strip msg \<noteq> [] then (chunks, current_chunk @ [msg], current_size + msg_size)
         else (chunks, current_chunk, current_size))"

definition chunk_by_messages :: "regex \<Rightarrow> string \<Rightarrow> int \<Rightarrow> int \<Rightarrow> py_error + chunk list" where
  "chunk_by_messages rx content chunk_size overlap =
     (let messages = re_split rx MessagePat content;
          (chunks, current_chunk, current_size) =
            fold (message_step chunk_size) messages ([], [], 0);
          chunks = (if current_chunk \<noteq> []
                    then chunks @ [[''text'' \<mapsto> S (join '' '' current_chunk), ''type'' \<mapsto> S ''message'',
                                    ''boundary'' \<mapsto> S ''thread_end'']]
                    else chunks)
      in if chunks \<noteq> [] then Inr chunks else chunk_sliding_window content chunk_size overlap)"

subsection \<open>\<open>chunk_by_endpoints\<close>\<close>

definition endpoint_chunk :: "string list \<Rightarrow> field \<Rightarrow> chunk" where
  "endpoint_chunk current_chunk current_endpoint =
     [''text'' \<mapsto> S (join [CHR 0x0A] current_chunk), ''type'' \<mapsto> S ''api_endpoint'',
      ''endpoint'' \<mapsto> current_endpoint]"

definition endpoint_step ::
  "regex \<Rightarrow> pattern \<Rightarrow> string \<Rightarrow> chunk list \<times> string list \<times> field \<Rightarrow> chunk list \<times> string list \<times> field" where
  "endpoint_step rx pat part st =
     (let (chunks, current_chunk, current_endpoint) = st
      in if re_match rx pat part
         then ((if current_chunk \<noteq> [] then chunks @ [endpoint_chunk current_chunk current_endpoint]
                else chunks),
               [part], S (strip part))
         else (chunks, current_chunk @ [part], current_endpoint))"

definition split_by_endpoint :: "regex \<Rightarrow> pattern \<Rightarrow> string \<Rightarrow> chunk list" where
  "split_by_endpoint rx pat content =
     (let (chunks, current_chunk, current_endpoint) =
            fold (endpoint_step rx pat) (re_split rx pat content) ([], [], NoneVal)
      in if current_chunk \<noteq> [] then chunks @ [endpoint_chunk current_chunk current_endpoint]
         else chunks)"

definition chunk_by_endpoints :: "regex \<Rightarrow> string \<Rightarrow> int \<Rightarrow> int \<Rightarrow> py_error + chunk list" where
  "chunk_by_endpoints rx content chunk_size overlap =
     (case filter (\<lambda>pat. re_search rx pat content) [EndpointPat 0, EndpointPat 1, EndpointPat 2] of
        pat # _ \<Rightarrow> Inr (split_by_endpoint rx pat content)
      | [] \<Rightarrow> chunk_by_sections rx content chunk_size overlap)"

subsection \<open>\<open>chunk_by_chapters\<close>\<close>

definition chapter_item :: "string list \<Rightarrow> int \<Rightarrow> int \<Rightarrow> nat \<Rightarrow> py_error + chunk list" where
  "chapter_item chapters chunk_size overlap i =
     (if i + 1 < length chapters
      then
        (let chapter_title = (if i > 0 then S (chapters ! i) else NoneVal);
             chapter_content = (if i = 0 then chapters ! (i + 1)
                                else chapters ! i @ chapters ! (i + 1))
         in if int (length (str_split chapter_content)) > chunk_size
            then (case chunk_sliding_window chapter_content chunk_size overlap of
                    Inl e \<Rightarrow> Inl e
                  | Inr sub_chunks \<Rightarrow>
                      Inr (map (\<lambda>sub_chunk. sub_chunk(''chapter'' \<mapsto> chapter_title,
                                                      ''type'' \<mapsto> S ''chapter_section''))
                             sub_chunks))
            else Inr [[''text'' \<mapsto> S chapter_content, ''type'' \<mapsto> S ''chapter'',
                       ''chapter'' \<mapsto> chapter_title]])
      else Inr [])"

fun collect_chunks :: "(nat \<Rightarrow> py_error + chunk list) \<Rightarrow> nat list \<Rightarrow> chunk list \<Rightarrow> py_error + chunk list" where
  "collect_chunks f [] chunks = Inr chunks"
| "collect_chunks f (i # is) chunks =
     (case f i of Inl e \<Rightarrow> Inl e | Inr cs \<Rightarrow> collect_chunks f is (chunks @ cs))"

definition chunk_by_chapters :: "regex \<Rightarrow> string \<Rightarrow> int \<Rightarrow> int \<Rightarrow> py_error + chunk list" where
  "chunk_by_chapters rx content chunk_size overlap =
     (case filter (\<lambda>pat. re_search rx pat content) [ChapterPat 0, ChapterPat 1, ChapterPat 2] of
        pat # _ \<Rightarrow>
          (let chapters = re_split rx pat content
           in collect_chunks (chapter_item chapters chunk_size overlap)
                (filter even [0..<length chapters]) [])
      | [] \<Rightarrow> chunk_by_sections rx content chunk_size overlap)"

subsection \<open>\<open>chunk_by_records\<close>\<close>

definition records_chunk :: "string \<Rightarrow> string list \<Rightarrow> chunk" where
  "records_chunk header current_chunk =
     [''text'' \<mapsto> S (header @ [CHR 0x0A] @ join [CHR 0x0A] current_chunk), ''type'' \<mapsto> S ''records'',
      ''record_count'' \<mapsto> I (int (length current_chunk))]"

definition record_step ::
  "int \<Rightarrow> string \<Rightarrow> string \<Rightarrow> chunk list \<times> string list \<Rightarrow> chunk list \<times> string list" where
  "record_step chunk_size header line st =
     (let (chunks, current_chunk) = st;
          current_chunk = current_chunk @ [line]
      in if int (length (str_split (join [CHR 0x0A] current_chunk))) > chunk_size
         then (chunks @ [records_chunk header current_chunk], [])
         else (chunks, current_chunk))"

definition chunk_by_records :: "string \<Rightarrow> int \<Rightarrow> int \<Rightarrow> py_error + chunk list" where
  "chunk_by_records content chunk_size overlap =
     (let lines = split_on (CHR 0x0A) [] content
      in if length lines > 1 \<and>
            list_all (\<lambda>line. CHR '','' \<in> set line \<or> CHR 0x09 \<in> set line) (take 5 lines)
         then
           (let header = hd lines;
                (chunks, current_chunk) = fold (record_step chunk_size header) (tl lines) ([], [])
            in Inr (if current_chunk \<noteq> [] then chunks @ [records_chunk header current_chunk]
                    else chunks))
         else chunk_sliding_window content chunk_size overlap)"

subsection \<open>\<open>chunk_by_timestamps\<close>\<close>

definition timed_chunk :: "string list \<Rightarrow> chunk" where
  "timed_chunk current_chunk =
     [''text'' \<mapsto> S (join '' '' current_chunk), ''type'' \<mapsto> S ''timed_content'',
      ''has_timestamps'' \<mapsto> B True]"

definition timestamp_step ::
  "regex \<Rightarrow> pattern \<Rightarrow> int \<Rightarrow> string \<Rightarrow> chunk list \<times> string list \<times> string option \<Rightarrow>
   chunk list \<times> string list \<times> string option" where
  "timestamp_step rx pat chunk_size part st =
     (let (chunks, current_chunk, current_time) = st
      in if re_match rx pat part then (chunks, current_chunk, Some part)
         else
           (let current_chunk =
                  current_chunk @ [if truthy current_time then the current_time @ '' '' @ part
                                   else part]
            in if int (length (str_split (join '' '' current_chunk))) > chunk_size
               then (chunks @ [timed_chunk current_chunk], [], current_time)
               else (chunks, current_chunk, current_time)))"

definition chunk_by_timestamps :: "regex \<Rightarrow> string \<Rightarrow> int \<Rightarrow> int \<Rightarrow> py_error + chunk list" where
  "chunk_by_timestamps rx content chunk_size overlap =
     (case filter (\<lambda>pat. re_search rx pat content) [TimestampPat 0, TimestampPat 1, TimestampPat 2] of
        pat # _ \<Rightarrow>
          (let (chunks, current_chunk, current_time) =
                 fold (timestamp_step rx pat chunk_size) (re_split rx pat content) ([], [], None)
           in Inr (if current_chunk \<noteq> [] then chunks @ [timed_chunk current_chunk] else chunks))
      | [] \<Rightarrow> chunk_sliding_window content chunk_size overlap)"

subsection \<open>\<open>SmartChunker.chunk\<close>: the dispatch table\<close>

definition smart_chunk :: "regex \<Rightarrow> string \<Rightarrow> string \<Rightarrow> int \<Rightarrow> int \<Rightarrow> py_error + chunk list" where
  "smart_chunk rx content strategy chunk_size overlap =
     (if strategy = ''sliding_window'' then chunk_sliding_window content chunk_size overlap
      else if strategy = ''section_aware'' then chunk_by_sections rx content chunk_size overlap
      else if strategy = ''conversation_aware'' then chunk_by_conversation rx content chunk_size overlap
      else if strategy = ''message_boundary'' then chunk_by_messages rx content chunk_size overlap
      else if strategy = ''endpoint_aware'' then chunk_by_endpoints rx content chunk_size overlap
      else if strategy = ''chapter_aware'' then chunk_by_chapters rx content chunk_size overlap
      else if strategy = ''record_aware'' then chunk_by_records content chunk_size overlap
      else if strategy = ''time_aware'' then chunk_by_timestamps rx content chunk_size overlap
      else chunk_sliding_window content chunk_size overlap)"

text \<open>
  A text without structural markers: splitting at section or message boundaries leaves
  the text whole, no speaker turn is found, no endpoint, chapter or timestamp pattern
  matches, and the text has neither comma nor tab.
\<close>

definition no_markers :: "regex \<Rightarrow> string \<Rightarrow> bool" where
  "no_markers rx content =
     (re_split rx SectionPat content = [content] \<and>
      re_split rx MessagePat content = [content] \<and>
      re_findall_turns rx content = [] \<and>
      list_all (\<lambda>i. \<not> re_search rx (EndpointPat i) content \<and>
                    \<not> re_search rx (ChapterPat i) content \<and>
                    \<not> re_search rx (TimestampPat i) content) [0, 1, 2] \<and>
      CHR '','' \<notin> set content \<and> CHR 0x09 \<notin> set content)"

text \<open>The regular-expression engine on texts in which no pattern matches.\<close>

definition no_match :: regex where
  "no_match = \<lparr>re_split = (\<lambda>pat s. [s]), re_search = (\<lambda>pat s. False),
               re_match = (\<lambda>pat s. False), re_findall_turns = (\<lambda>s. [])\<rparr>"


section \<open>\<open>retriever/ingest.py\<close>: the crawler\<close>

text \<open>
  The world outside the crawler is a parameter: \<open>urlparse\<close> (scheme, network location and
  path of a URL), \<open>requests.get\<close> (\<open>None\<close> when it raises), the verdict
  \<open>can_fetch\<close> of a \<open>RobotFileParser\<close> built from the text of a robots.txt, the \<open>href\<close>
  attributes of the anchors of an HTML page in document order (\<open>None\<close> when the parser
  raises), and \<open>urljoin\<close>.
\<close>

record http_response =
  resp_status :: int
  resp_content_type :: string
  resp_text :: string

record web =
  url_scheme :: "string \<Rightarrow> string"
  url_netloc :: "string \<Rightarrow> string"
  url_path :: "string \<Rightarrow> string"
  web_get :: "string \<Rightarrow> http_response option"
  robots_can_fetch :: "string \<Rightarrow> string \<Rightarrow> string \<Rightarrow> bool"
  anchor_hrefs :: "string \<Rightarrow> string list option"
  urljoin :: "string \<Rightarrow> string \<Rightarrow> string"

definition user_agent :: string where
  "user_agent = ''DocsAI/0.1 (+local; respectful crawler)''"

text \<open>
  The state of a crawl: the local variables \<open>frontier\<close>, \<open>seen\<close> and \<open>out\<close> of
  \<open>crawl_website\<close>, the files of the cache directory by name, the module-level dict
  \<open>_robots_cache\<close> (a parser is represented by the text it was built from), and the log
  of the HTTP requests issued so far.
\<close>

datatype request = PageGet string | RobotsGet string

record crawl_state =
  cs_frontier :: "(string \<times> int) list"
  cs_seen :: "string list"
  cs_out :: "(string \<times> string) list"
  cs_cache :: "string \<rightharpoonup> string"
  cs_robots :: "string \<rightharpoonup> string option"
  cs_requests :: "request list"

text \<open>The f-string \<open>{scheme}://{netloc}\<close> of a parsed URL.\<close>

definition domain_key :: "web \<Rightarrow> string \<Rightarrow> string" where
  "domain_key w url = url_scheme w url @ ''://'' @ url_netloc w url"

text \<open>\<open>_robots_allowed\<close>.\<close>

definition robots_allowed :: "web \<Rightarrow> string \<Rightarrow> string \<Rightarrow> bool \<Rightarrow> crawl_state \<Rightarrow> bool \<times> crawl_state" where
  "robots_allowed w start_domain url respect st =
     (if \<not> respect then (True, st)
      else
        let key = domain_key w start_domain;
            st =
              (if cs_robots st key = None
               then
                 (let robots_url = key @ ''/robots.txt'';
                      st = st\<lparr>cs_requests := cs_requests st @ [RobotsGet robots_url]\<rparr>
                  in case web_get w robots_url of
                       Some r \<Rightarrow>
                         if resp_status r = 200 \<and> \<not> contains ''text/html'' (resp_content_type r)
                         then st\<lparr>cs_robots := (cs_robots st)(key \<mapsto> Some (resp_text r))\<rparr>
                         else st\<lparr>cs_robots := (cs_robots st)(key \<mapsto> None)\<rparr>
                     | None \<Rightarrow> st\<lparr>cs_robots := (cs_robots st)(key \<mapsto> None)\<rparr>)
               else st)
        in case cs_robots st key of
             Some (Some body) \<Rightarrow> (robots_can_fetch w body user_agent url, st)
           | _ \<Rightarrow> (True, st))"

text \<open>\<open>_is_allowed_path\<close>.\<close>

definition is_allowed_path :: "web \<Rightarrow> string \<Rightarrow> string \<Rightarrow> string list \<Rightarrow> bool" where
  "is_allowed_path w url start_domain allowed_paths =
     (if url_netloc w url \<noteq> url_netloc w start_domain then False
      else if allowed_paths = [] then True
      else
        let path = (if url_path w url = [] then ''/'' else url_path w url)
        in list_ex (\<lambda>p. prefix p path) allowed_paths)"

text \<open>
  \<open>_read_cache\<close> and \<open>_write_cache\<close>: the file name is the SHA-1 of the URL, a parameter
  \<open>h\<close>, followed by \<open>.html\<close>.
\<close>

definition read_cache :: "(string \<Rightarrow> string) \<Rightarrow> crawl_state \<Rightarrow> string \<Rightarrow> string option" where
  "read_cache h st url = cs_cache st (h url @ ''.html'')"

definition write_cache :: "(string \<Rightarrow> string) \<Rightarrow> string \<Rightarrow> string \<Rightarrow> crawl_state \<Rightarrow> crawl_state" where
  "write_cache h url html st = st\<lparr>cs_cache := (cs_cache st)(h url @ ''.html'' \<mapsto> html)\<rparr>"

text \<open>\<open>d[k] = v\<close> on a dict kept as the list of its items in insertion order.\<close>

fun dict_set :: "'k \<Rightarrow> 'v \<Rightarrow> ('k \<times> 'v) list \<Rightarrow> ('k \<times> 'v) list" where
  "dict_set k v [] = [(k, v)]"
| "dict_set k v (p # ps) = (if fst p = k then (k, v) # ps else p # dict_set k v ps)"

text \<open>The links of an accepted page that are put on the frontier.\<close>

definition discover_links ::
  "web \<Rightarrow> string \<Rightarrow> string list \<Rightarrow> string \<Rightarrow> int \<Rightarrow> string list \<Rightarrow> (string \<times> int) list" where
  "discover_links w base_domain allowed_paths url depth hrefs =
     map (\<lambda>nxt. (nxt, depth + 1))
       (filter (\<lambda>nxt. is_allowed_path w nxt base_domain allowed_paths)
          (map (urljoin w url)
             (filter (\<lambda>href. \<not> (prefix ''#'' href \<or> prefix ''mailto:'' href \<or> prefix ''javascript:'' href))
                (map strip hrefs))))"

text \<open>The part of the loop body after a page has been loaded from the cache or fetched.\<close>

definition accept_page ::
  "web \<Rightarrow> string \<Rightarrow> string list \<Rightarrow> int \<Rightarrow> string \<Rightarrow> int \<Rightarrow> string \<Rightarrow> crawl_state \<Rightarrow> crawl_state" where
  "accept_page w base_domain allowed_paths max_depth url depth html st =
     (let st = st\<lparr>cs_out := dict_set url html (cs_out st)\<rparr>
      in if depth \<ge> max_depth then st
         else (case anchor_hrefs w html of
                 None \<Rightarrow> st
               | Some hrefs \<Rightarrow>
                   st\<lparr>cs_frontier := cs_frontier st
                        @ discover_links w base_domain allowed_paths url depth hrefs\<rparr>))"

text \<open>One iteration of the \<open>while frontier\<close> loop.\<close>

definition crawl_step ::
  "(string \<Rightarrow> string) \<Rightarrow> web \<Rightarrow> string \<Rightarrow> string list \<Rightarrow> int \<Rightarrow> crawl_state \<Rightarrow> crawl_state" where
  "crawl_step h w base_domain allowed_paths max_depth st =
     (case cs_frontier st of
        [] \<Rightarrow> st
      | (url, depth) # rest \<Rightarrow>
          let st = st\<lparr>cs_frontier := rest\<rparr>
          in if url \<in> set (cs_seen st) then st
             else
               let st = st\<lparr>cs_seen := url # cs_seen st\<rparr>
               in if \<not> is_allowed_path w url base_domain allowed_paths then st
                  else
                    let (allowed, st) = robots_allowed w base_domain url True st
                    in if \<not> allowed then st
                       else
                         (case read_cache h st url of
                            Some html \<Rightarrow>
                              accept_page w base_domain allowed_paths max_depth url depth html st
                          | None \<Rightarrow>
                              let st = st\<lparr>cs_requests := cs_requests st @ [PageGet url]\<rparr>
                              in case web_get w url of
                                   None \<Rightarrow> st
                                 | Some r \<Rightarrow>
                                     if resp_status r \<noteq> 200 \<or>
                                        \<not> contains ''text/html'' (resp_content_type r)
                                     then st
                                     else accept_page w base_domain allowed_paths max_depth url depth
                                            (resp_text r) (write_cache h url (resp_text r) st)))"

text \<open>
  \<open>crawl_website\<close>: the state before the loop, the state after \<open>n\<close> iterations, and the
  result \<open>out\<close> when the frontier is empty after at most \<open>fuel\<close> iterations. The crawl
  starts with the given cache directory and robots cache and with an empty request log.
\<close>

definition crawl_init :: "string \<Rightarrow> (string \<rightharpoonup> string) \<Rightarrow> (string \<rightharpoonup> string option) \<Rightarrow> crawl_state" where
  "crawl_init start_url cache robots =
     \<lparr>cs_frontier = [(start_url, 0)], cs_seen = [], cs_out = [], cs_cache = cache,
      cs_robots = robots, cs_requests = []\<rparr>"

fun crawl_iter ::
  "(string \<Rightarrow> string) \<Rightarrow> web \<Rightarrow> string \<Rightarrow> string list \<Rightarrow> int \<Rightarrow> nat \<Rightarrow> crawl_state \<Rightarrow> crawl_state" where
  "crawl_iter h w base_domain allowed_paths max_depth 0 st = st"
| "crawl_iter h w base_domain allowed_paths max_depth (Suc n) st =
     crawl_iter h w base_domain allowed_paths max_depth n
       (crawl_step h w base_domain allowed_paths max_depth st)"

definition crawl_run ::
  "(string \<Rightarrow> string) \<Rightarrow> web \<Rightarrow> string \<Rightarrow> string list \<Rightarrow> int \<Rightarrow>
   (string \<rightharpoonup> string) \<Rightarrow> (string \<rightharpoonup> string option) \<Rightarrow> nat \<Rightarrow> crawl_state" where
  "crawl_run h w start_url allowed_paths max_depth cache robots n =
     crawl_iter h w (domain_key w start_url) allowed_paths max_depth n
       (crawl_init start_url cache robots)"

fun crawl_loop ::
  "(string \<Rightarrow> string) \<Rightarrow> web \<Rightarrow> string \<Rightarrow> string list \<Rightarrow> int \<Rightarrow> nat \<Rightarrow> crawl_state \<Rightarrow> crawl_state option" where
  "crawl_loop h w base_domain allowed_paths max_depth 0 st =
     (if cs_frontier st = [] then Some st else None)"
| "crawl_loop h w base_domain allowed_paths max_depth (Suc n) st =
     (if cs_frontier st = [] then Some st
      else crawl_loop h w base_domain allowed_paths max_depth n
             (crawl_step h w base_domain allowed_paths max_depth st))"

definition crawl_website ::
  "(string \<Rightarrow> string) \<Rightarrow> web \<Rightarrow> string \<Rightarrow> string list \<Rightarrow> int \<Rightarrow>
   (string \<rightharpoonup> string) \<Rightarrow> (string \<rightharpoonup> string option) \<Rightarrow> nat \<Rightarrow> crawl_state option" where
  "crawl_website h w start_url allowed_paths max_depth cache robots fuel =
     crawl_loop h w (domain_key w start_url) allowed_paths max_depth fuel
       (crawl_init start_url cache robots)"

text \<open>
  A small site for the examples: URLs of the form \<open>scheme://netloc/path\<close>, a root page
  with links to \<open>/docs/a\<close>, to \<open>/private/b\<close> and to another host, and a robots.txt served
  as \<open>text/plain\<close> that disallows \<open>/private\<close> for every user agent; the verdict of
  its parser forbids the paths under \<open>/private\<close>.
\<close>

definition robots_body :: string where
  "robots_body = ''User-agent: *'' @ [CHR 0x0A] @ ''Disallow: /private''"

fun after_scheme :: "string \<Rightarrow> string" where
  "after_scheme [] = []"
| "after_scheme (c # cs) = (if prefix ''://'' (c # cs) then drop 3 (c # cs) else after_scheme cs)"

fun before_scheme :: "string \<Rightarrow> string" where
  "before_scheme [] = []"
| "before_scheme (c # cs) = (if prefix ''://'' (c # cs) then [] else c # before_scheme cs)"

definition site_page :: "string \<Rightarrow> http_response" where
  "site_page body = \<lparr>resp_status = 200, resp_content_type = ''text/html; charset=utf-8'', resp_text = body\<rparr>"

definition site :: web where
  "site =
     \<lparr>url_scheme = before_scheme,
      url_netloc = (\<lambda>u. takeWhile (\<lambda>c. c \<noteq> CHR ''/'') (after_scheme u)),
      url_path = (\<lambda>u. dropWhile (\<lambda>c. c \<noteq> CHR ''/'') (after_scheme u)),
      web_get = (\<lambda>u.
         if u = ''http://h/robots.txt''
         then Some \<lparr>resp_status = 200, resp_content_type = ''text/plain'',
                    resp_text = robots_body\<rparr>
         else if u = ''http://h'' then Some (site_page ''root'')
         else if u = ''http://h/docs/a'' then Some (site_page ''a'')
         else if u = ''http://h/private/b'' then Some (site_page ''b'')
         else None),
      robots_can_fetch = (\<lambda>body agent u.
         \<not> (body = robots_body \<and>
            prefix ''/private'' (dropWhile (\<lambda>c. c \<noteq> CHR ''/'') (after_scheme u)))),
      anchor_hrefs = (\<lambda>html.
         if html = ''root'' then Some [''/docs/a'', ''/private/b'', ''http://other/x''] else Some []),
      urljoin = (\<lambda>base href. if prefix ''http'' href then href else ''http://h'' @ href)\<rparr>"

text \<open>
  What \<open>_robots_allowed\<close> stores for a host whose robots.txt it fetches, and the verdict of
  a stored entry on a URL.
\<close>

definition robots_entry :: "web \<Rightarrow> string \<Rightarrow> string option" where
  "robots_entry w key =
     (case web_get w (key @ ''/robots.txt'') of
        Some r \<Rightarrow>
          if resp_status r = 200 \<and> \<not> contains ''text/html'' (resp_content_type r)
          then Some (resp_text r) else None
      | None \<Rightarrow> None)"

definition robots_verdict :: "web \<Rightarrow> string option \<Rightarrow> string \<Rightarrow> bool" where
  "robots_verdict w entry url =
     (case entry of None \<Rightarrow> True | Some body \<Rightarrow> robots_can_fetch w body user_agent url)"

fun is_robots_get :: "request \<Rightarrow> bool" where
  "is_robots_get (RobotsGet u) = True"
| "is_robots_get (PageGet u) = False"

text \<open>
  The invariant of the crawl loop, for a crawl that started with the entry \<open>e0\<close> of the
  robots cache for its host (\<open>None\<close>: not cached yet) and an empty request log.
\<close>

definition crawl_inv ::
  "web \<Rightarrow> string \<Rightarrow> string list \<Rightarrow> string option option \<Rightarrow> crawl_state \<Rightarrow> bool" where
  "crawl_inv w base_domain allowed_paths e0 st =
     ((\<forall>u. PageGet u \<in> set (cs_requests st) \<longrightarrow> is_allowed_path w u base_domain allowed_paths) \<and>
      (case cs_robots st (domain_key w base_domain) of
         None \<Rightarrow> e0 = None \<and> cs_requests st = []
       | Some e \<Rightarrow>
           (case e0 of
              None \<Rightarrow> e = robots_entry w (domain_key w base_domain) \<and>
                       filter is_robots_get (cs_requests st)
                         = [RobotsGet (domain_key w base_domain @ ''/robots.txt'')]
            | Some e' \<Rightarrow> e = e' \<and> filter is_robots_get (cs_requests st) = []) \<and>
           (\<forall>u. PageGet u \<in> set (cs_requests st) \<longrightarrow> robots_verdict w e u)))"

text \<open>The loop body after the two gates have been passed, as a function of its own.\<close>

definition load_page ::
  "(string \<Rightarrow> string) \<Rightarrow> web \<Rightarrow> string \<Rightarrow> string list \<Rightarrow> int \<Rightarrow> string \<Rightarrow> int \<Rightarrow> crawl_state \<Rightarrow> crawl_state" where
  "load_page h w base_domain allowed_paths max_depth url depth st =
     (case read_cache h st url of
        Some html \<Rightarrow> accept_page w base_domain allowed_paths max_depth url depth html st
      | None \<Rightarrow>
          let st = st\<lparr>cs_requests := cs_requests st @ [PageGet url]\<rparr>
          in case web_get w url of
               None \<Rightarrow> st
             | Some r \<Rightarrow>
                 if resp_status r \<noteq> 200 \<or> \<not> contains ''text/html'' (resp_content_type r)
                 then st
                 else accept_page w base_domain allowed_paths max_depth url depth
                        (resp_text r) (write_cache h url (resp_text r) st))"


section \<open>SHA-1\<close>

text \<open>
  \<open>hashlib.sha1(text.encode("utf-8")).hexdigest()\<close> on an ASCII string, after FIPS 180-4:
  padding to blocks of 64 bytes, the message schedule of 80 words for each block, 80
  rounds on five 32-bit words, and the digest as 40 lower-case hexadecimal digits.
\<close>

definition sha1_pad :: "nat list \<Rightarrow> nat list" where
  "sha1_pad bs =
     bs @ [128] @ replicate ((119 - length bs mod 64) mod 64) 0
        @ map (\<lambda>i. (8 * length bs) div 256 ^ (7 - i) mod 256) [0..<8]"

fun sha1_words :: "nat list \<Rightarrow> 32 word list" where
  "sha1_words (a # b # c # d # bs) =
     word_of_nat (((a * 256 + b) * 256 + c) * 256 + d) # sha1_words bs"
| "sha1_words bs = []"

fun sha1_schedule :: "nat \<Rightarrow> 32 word list \<Rightarrow> 32 word list" where
  "sha1_schedule 0 ws = ws"
| "sha1_schedule (Suc n) ws =
     (let i = length ws
      in sha1_schedule n
           (ws @ [word_rotl 1 (xor (xor (ws ! (i - 3)) (ws ! (i - 8)))
                                 (xor (ws ! (i - 14)) (ws ! (i - 16))))]))"

type_synonym sha1_state = "32 word \<times> 32 word \<times> 32 word \<times> 32 word \<times> 32 word"

definition sha1_round :: "32 word list \<Rightarrow> nat \<Rightarrow> sha1_state \<Rightarrow> sha1_state" where
  "sha1_round ws i s =
     (let (a, b, c, d, e) = s;
          (f, k) =
            (if i < 20 then (or (and b c) (and (not b) d), 0x5A827999)
             else if i < 40 then (xor (xor b c) d, 0x6ED9EBA1)
             else if i < 60 then (or (or (and b c) (and b d)) (and c d), 0x8F1BBCDC)
             else (xor (xor b c) d, 0xCA62C1D6));
          temp = word_rotl 5 a + f + e + k + ws ! i
      in (temp, a, word_rotl 30 b, c, d))"

definition sha1_block :: "sha1_state \<Rightarrow> 32 word list \<Rightarrow> sha1_state" where
  "sha1_block s block =
     (let (h0, h1, h2, h3, h4) = s;
          (a, b, c, d, e) = fold (sha1_round (sha1_schedule 64 block)) [0..<80] s
      in (h0 + a, h1 + b, h2 + c, h3 + d, h4 + e))"

fun sha1_blocks :: "nat \<Rightarrow> sha1_state \<Rightarrow> 32 word list \<Rightarrow> sha1_state" where
  "sha1_blocks 0 s ws = s"
| "sha1_blocks (Suc n) s ws = sha1_blocks n (sha1_block s (take 16 ws)) (drop 16 ws)"

definition hex_digit :: "nat \<Rightarrow> char" where
  "hex_digit n = (if n < 10 then char_of (48 + n) else char_of (87 + n))"

definition hex_word :: "32 word \<Rightarrow> string" where
  "hex_word x = map (\<lambda>i. hex_digit (unat x div 16 ^ (7 - i) mod 16)) [0..<8]"

definition sha1_hex :: "string \<Rightarrow> string" where
  "sha1_hex text =
     (let ws = sha1_words (sha1_pad (map of_char text));
          (h0, h1, h2, h3, h4) =
            sha1_blocks (length ws div 16)
              (0x67452301, 0xEFCDAB89, 0x98BADCFE, 0x10325476, 0xC3D2E1F0) ws
      in hex_word h0 @ hex_word h1 @ hex_word h2 @ hex_word h3 @ hex_word h4)"

section \<open>Chunk identifiers\<close>

text \<open>\<open>str(n)\<close> for a natural number.\<close>

fun show_nat :: "nat \<Rightarrow> string" where
  "show_nat n =
     (if n < 10 then [char_of (48 + n)] else show_nat (n div 10) @ [char_of (48 + n mod 10)])"

text \<open>
  The identifier format of both ingestion paths,
  \<open>f"{_hash(origin)}_{n}_{_hash(text)[:8]}"\<close>. The hash function \<open>_hash\<close> is the parameter
  \<open>h\<close> of the definitions below; it is \<^const>\<open>sha1_hex\<close>.
\<close>

definition chunk_id :: "(string \<Rightarrow> string) \<Rightarrow> string \<Rightarrow> nat \<Rightarrow> string \<Rightarrow> string" where
  "chunk_id h origin n text = h origin @ ''_'' @ show_nat n @ ''_'' @ take 8 (h text)"

subsection \<open>\<open>retriever/ingest.py\<close>: \<open>ingest_profile\<close>\<close>

record ingest_cfg =
  cfg_chunk_tokens :: int
  cfg_chunk_overlap :: int
  cfg_min_text_len :: int

text \<open>
  The loop over \<open>enumerate(chunks)\<close> of one origin. A document of the batch is the triple
  of its identifier, its text and its metadata.
\<close>

type_synonym doc = "string \<times> string \<times> (string \<rightharpoonup> field)"

definition chunk_docs ::
  "(string \<Rightarrow> string) \<Rightarrow> ingest_cfg \<Rightarrow> string \<Rightarrow> string \<Rightarrow> (nat \<Rightarrow> string \<rightharpoonup> field) \<Rightarrow> string list \<Rightarrow> doc list" where
  "chunk_docs h cfg origin source_name metadata chunks =
     fold (\<lambda>(idx, chunk) docs.
             if int (length chunk) < cfg_min_text_len cfg then docs
             else docs @ [(h origin @ ''_'' @ show_nat idx @ ''_'' @ take 8 (h chunk),
                           chunk @ [CHR 0x0A, CHR 0x0A] @ ''(Source: '' @ source_name @ '')'',
                           metadata idx)])
       (enumerate 0 chunks) []"

text \<open>
  The web branch, over the items of the crawl result; \<open>_html_to_md\<close> is a parameter.
\<close>

definition web_docs ::
  "(string \<Rightarrow> string) \<Rightarrow> (string \<Rightarrow> string) \<Rightarrow> ingest_cfg \<Rightarrow> (string \<times> string) list \<Rightarrow> doc list" where
  "web_docs h html_to_md cfg raw =
     fold (\<lambda>(url, html) docs.
             let md = html_to_md html
             in if md = [] \<or> length md < 100 then docs
                else
                  let chunks = ingest_chunk md (cfg_chunk_tokens cfg) (cfg_chunk_overlap cfg)
                  in if chunks = [] then docs
                     else docs @ chunk_docs h cfg url url
                            (\<lambda>idx. [''source_url'' \<mapsto> S url, ''chunk_index'' \<mapsto> I (int idx),
                                    ''source_type'' \<mapsto> S ''web'']) chunks)
       raw []"

text \<open>
  The local branch, over the file paths found; the file parser is a parameter that gives
  the content and the file name of a parsed file, or \<open>None\<close> when it fails.
\<close>

definition local_docs ::
  "(string \<Rightarrow> string) \<Rightarrow> (string \<Rightarrow> (string \<times> string) option) \<Rightarrow> ingest_cfg \<Rightarrow> string list \<Rightarrow> doc list" where
  "local_docs h parse_file cfg files =
     fold (\<lambda>filepath docs.
             case parse_file filepath of
               None \<Rightarrow> docs
             | Some (content, filename) \<Rightarrow>
                 if content = [] \<or> length content < 100 then docs
                 else
                   let chunks = ingest_chunk content (cfg_chunk_tokens cfg) (cfg_chunk_overlap cfg)
                   in if chunks = [] then docs
                      else docs @ chunk_docs h cfg filepath filename
                             (\<lambda>idx. [''source_path'' \<mapsto> S filepath, ''filename'' \<mapsto> S filename,
                                     ''chunk_index'' \<mapsto> I (int idx), ''source_type'' \<mapsto> S ''local''])
                             chunks)
       files []"

subsection \<open>\<open>ingestion_manager.py\<close>: the processing loop of \<open>_run_ingestion\<close>\<close>

text \<open>
  A work item is a crawled page with its HTML or a local file; an indexed chunk is a
  record of \<open>all_chunks\<close> with the fields \<open>source\<close>, \<open>chunk_type\<close> and \<open>chunk_index\<close> of
  its metadata. The state of the loop is \<open>all_chunks\<close> with the warnings and errors of
  the task. The metadata extractors are left out.
\<close>

datatype source_type = Web | Local

record file_info =
  fi_type :: source_type
  fi_path :: string
  fi_content :: string

record indexed_chunk =
  ic_id :: string
  ic_text :: string
  ic_source :: string
  ic_chunk_type :: string
  ic_chunk_index :: nat

record ingest_env =
  env_html_to_md :: "string \<Rightarrow> string"
  env_parse_file :: "string \<Rightarrow> string option"
  env_regex :: regex

definition chunk_field :: "chunk \<Rightarrow> string \<Rightarrow> string" where
  "chunk_field chunk_data k = (case chunk_data k of Some (S t) \<Rightarrow> t | _ \<Rightarrow> [])"

definition add_chunk ::
  "(string \<Rightarrow> string) \<Rightarrow> string \<Rightarrow> chunk \<Rightarrow> indexed_chunk list \<Rightarrow> indexed_chunk list" where
  "add_chunk h filename chunk_data all_chunks =
     all_chunks @
       [\<lparr>ic_id = h filename @ ''_'' @ show_nat (length all_chunks) @ ''_''
                  @ take 8 (h (chunk_field chunk_data ''text'')),
         ic_text = chunk_field chunk_data ''text'',
         ic_source = filename,
         ic_chunk_type = (case chunk_data ''type'' of Some (S t) \<Rightarrow> t | _ \<Rightarrow> ''unknown''),
         ic_chunk_index = length all_chunks\<rparr>]"

text \<open>The name under which a work item is classified and hashed.\<close>

definition item_name :: "file_info \<Rightarrow> string" where
  "item_name file = (case fi_type file of Web \<Rightarrow> fi_path file | Local \<Rightarrow> path_name (fi_path file))"

definition process_file ::
  "(string \<Rightarrow> string) \<Rightarrow> ingest_env \<Rightarrow> file_info \<Rightarrow>
   indexed_chunk list \<times> string list \<times> string list \<Rightarrow> indexed_chunk list \<times> string list \<times> string list" where
  "process_file h env file st =
     (let (all_chunks, warnings, errors) = st;
          parsed = (case fi_type file of
                      Web \<Rightarrow> Some (env_html_to_md env (fi_content file))
                    | Local \<Rightarrow>
                        (case env_parse_file env (fi_path file) of
                           Some content \<Rightarrow> if content \<noteq> [] then Some content else None
                         | None \<Rightarrow> None))
      in case parsed of
           None \<Rightarrow> (all_chunks, warnings @ [''Failed to parse: '' @ fi_path file], errors)
         | Some content \<Rightarrow>
             if content = [] \<or> length content < 100 then (all_chunks, warnings, errors)
             else
               let filename = item_name file;
                   doc_category = categorize_document filename content
               in case smart_chunk (env_regex env) content (dc_chunk_strategy doc_category)
                         (dc_chunk_size doc_category) 120 of
                    Inl e \<Rightarrow> (all_chunks, warnings, errors @ [''Error processing '' @ fi_path file])
                  | Inr chunks \<Rightarrow> (fold (add_chunk h filename) chunks all_chunks, warnings, errors))"

definition process_files ::
  "(string \<Rightarrow> string) \<Rightarrow> ingest_env \<Rightarrow> file_info list \<Rightarrow> indexed_chunk list" where
  "process_files h env files = fst (fold (process_file h env) files ([], [], []))"

text \<open>
  For the examples: pages that are plain text already, a text of sixty words, two pages
  and a local file with that content, and the \<open>ingest\<close> section of the default
  configuration (\<open>config_loader.py\<close>).
\<close>

definition plain_env :: ingest_env where
  "plain_env = \<lparr>env_html_to_md = (\<lambda>html. html), env_parse_file = (\<lambda>path. Some (join '' '' (replicate 60 ''word''))),
                env_regex = no_match\<rparr>"

definition sixty_words :: string where
  "sixty_words = join '' '' (replicate 60 ''word'')"

definition page_a :: file_info where
  "page_a = \<lparr>fi_type = Web, fi_path = ''http://h/a'', fi_content = sixty_words\<rparr>"

definition page_b :: file_info where
  "page_b = \<lparr>fi_type = Web, fi_path = ''http://h/b'', fi_content = sixty_words\<rparr>"

definition default_ingest :: ingest_cfg where
  "default_ingest = \<lparr>cfg_chunk_tokens = 800, cfg_chunk_overlap = 120, cfg_min_text_len = 180\<rparr>"

text \<open>
  The chunks of one text in \<open>ingest_profile\<close>, and the test that keeps a chunk, in the
  words of the identifier claim.
\<close>

definition text_chunks :: "ingest_cfg \<Rightarrow> string \<Rightarrow> string list" where
  "text_chunks cfg content =
     (if content = [] \<or> length content < 100 then []
      else ingest_chunk content (cfg_chunk_tokens cfg) (cfg_chunk_overlap cfg))"

definition origin_ids :: "(string \<Rightarrow> string) \<Rightarrow> ingest_cfg \<Rightarrow> string \<Rightarrow> string list \<Rightarrow> string list" where
  "origin_ids h cfg origin chunks =
     map (\<lambda>(idx, chunk). chunk_id h origin idx chunk)
       (filter (\<lambda>(idx, chunk). \<not> int (length chunk) < cfg_min_text_len cfg) (enumerate 0 chunks))"

text \<open>The invariant of \<open>all_chunks\<close>: the record at position \<open>k\<close> carries the number \<open>k\<close>.\<close>

definition numbered :: "(string \<Rightarrow> string) \<Rightarrow> string set \<Rightarrow> indexed_chunk list \<Rightarrow> bool" where
  "numbered h names all_chunks =
     (\<forall>k < length all_chunks.
        ic_id (all_chunks ! k) = chunk_id h (ic_source (all_chunks ! k)) k (ic_text (all_chunks ! k)) \<and>
        ic_chunk_index (all_chunks ! k) = k \<and> ic_source (all_chunks ! k) \<in> names)"


section \<open>Properties\<close>

declare range_up.simps [simp del] range_down.simps [simp del] chunk_loop.simps [simp del]

subsection \<open>The word-count threshold of \<open>_chunk\<close>\<close>

lemma py_slice_all: "int (length xs) \<le> b \<Longrightarrow> py_slice xs 0 b = xs"
  by (simp add: py_slice_def slice_bound_def)

lemma ingest_chunk_below_threshold:
  "length (str_split md) < 50 \<Longrightarrow> ingest_chunk md tok overlap = []"
  by (simp add: ingest_chunk_def)

lemma chunk_loop_single:
  assumes "words \<noteq> []" "int (length words) \<le> tok" "int (length words) \<le> tok - overlap"
  shows "chunk_loop words tok overlap 0 [] = [join '' '' words]"
proof -
  have "chunk_loop words tok overlap 0 [] =
        chunk_loop words tok overlap (max (tok - overlap) 1) [join '' '' (py_slice words 0 tok)]"
    using assms(1) by (subst chunk_loop.simps) simp
  also have "\<dots> = [join '' '' (py_slice words 0 tok)]"
    using assms(3) by (subst chunk_loop.simps) simp
  finally show ?thesis using assms(2) by (simp add: py_slice_all)
qed

text \<open>
  Claim C8, as amended. A document of fewer than 50 words gives no chunk. A document of
  exactly 50 words is not below the threshold \<open>len(words) < 50\<close>: with
  \<open>chunk_size = 800\<close> and an overlap of at most 750 it gives exactly one chunk, its
  50 words joined by single spaces.
\<close>

theorem ingest_chunk_threshold:
  "(length (str_split md) < 50 \<longrightarrow> ingest_chunk md tok overlap = []) \<and>
   (length (str_split md) = 50 \<and> overlap \<le> 750 \<longrightarrow>
      ingest_chunk md 800 overlap = [join '' '' (str_split md)])"
proof (intro conjI impI)
  assume "length (str_split md) < 50"
  then show "ingest_chunk md tok overlap = []" by (rule ingest_chunk_below_threshold)
next
  assume a: "length (str_split md) = 50 \<and> overlap \<le> 750"
  then have "str_split md \<noteq> []" by auto
  then have "chunk_loop (str_split md) 800 overlap 0 [] = [join '' '' (str_split md)]"
    using a by (intro chunk_loop_single) auto
  then show "ingest_chunk md 800 overlap = [join '' '' (str_split md)]"
    using a by (simp add: ingest_chunk_def)
qed

text \<open>Claim C8: the amended statement at a two-word and at a 50-word document.\<close>

theorem ingest_chunk_threshold_witness:
  "length (str_split ''one two'') < 50 \<and> ingest_chunk ''one two'' 800 120 = [] \<and>
   length (str_split (join '' '' (replicate 50 ''w''))) = 50 \<and> (120::int) \<le> 750 \<and>
   ingest_chunk (join '' '' (replicate 50 ''w'')) 800 120 = [join '' '' (replicate 50 ''w'')]"
proof -
  have a: "length (str_split ''one two'') < 50" by code_simp
  have b: "length (str_split (join '' '' (replicate 50 ''w''))) = 50" by code_simp
  have c: "str_split (join '' '' (replicate 50 ''w'')) = replicate 50 ''w''" by code_simp
  show ?thesis
    using a b ingest_chunk_threshold [of "''one two''" 800 120]
      ingest_chunk_threshold [of "join '' '' (replicate 50 ''w'')" 800 120]
    by (simp add: c)
qed

text \<open>
  Claim C8 as stated fails: a document of exactly 50 words, chunked with
  \<open>chunk_size = 800\<close> (and the default overlap 120), gives a chunk.
\<close>

theorem fifty_words_counterexample:
  "length (str_split (join '' '' (replicate 50 ''w''))) = 50 \<and>
   ingest_chunk (join '' '' (replicate 50 ''w'')) 800 120 \<noteq> []"
  by code_simp

subsection \<open>The sliding window\<close>

lemma range_up_bounds: "j \<in> set (range_up i stop step) \<Longrightarrow> i \<le> j \<and> j < stop"
proof (induction i stop step rule: range_up.induct)
  case (1 i stop step)
  show ?case
  proof (cases "0 < step \<and> i < stop")
    case True
    with "1.prems" have "j = i \<or> j \<in> set (range_up (i + step) stop step)"
      by (subst (asm) range_up.simps) auto
    with True "1.IH" show ?thesis by auto
  next
    case False
    with "1.prems" show ?thesis by (subst (asm) range_up.simps) auto
  qed
qed

lemma range_up_increasing: "sorted_wrt (<) (range_up i stop step)"
proof (induction i stop step rule: range_up.induct)
  case (1 i stop step)
  show ?case
  proof (cases "0 < step \<and> i < stop")
    case True
    have "\<forall>j \<in> set (range_up (i + step) stop step). i < j"
      using range_up_bounds True by fastforce
    with True "1.IH" show ?thesis by (subst range_up.simps) simp
  next
    case False
    then show ?thesis by (subst range_up.simps) auto
  qed
qed

lemma range_up_covers:
  "0 < step \<Longrightarrow> i \<le> j \<Longrightarrow> j < stop \<Longrightarrow> \<exists>k \<in> set (range_up i stop step). k \<le> j \<and> j < k + step"
proof (induction i stop step rule: range_up.induct)
  case (1 i stop step)
  from "1.prems" have guard: "0 < step \<and> i < stop" by simp
  then have unfold: "range_up i stop step = i # range_up (i + step) stop step"
    by (subst range_up.simps) simp
  show ?case
  proof (cases "j < i + step")
    case True
    with "1.prems" unfold show ?thesis by auto
  next
    case False
    then have "\<exists>k \<in> set (range_up (i + step) stop step). k \<le> j \<and> j < k + step"
      using "1.IH" guard "1.prems" by simp
    with unfold show ?thesis by auto
  qed
qed

lemma range_down_empty: "i \<le> stop \<Longrightarrow> range_down i stop step = []"
  by (subst range_down.simps) simp

lemma nth_in_py_slice:
  assumes "0 \<le> i" "i \<le> int k" "int k < i + n" "k < length xs"
  shows "xs ! k \<in> set (py_slice xs i (i + n))"
proof -
  let ?lo = "slice_bound (length xs) i" and ?hi = "slice_bound (length xs) (i + n)"
  have lo: "?lo = nat i" using assms by (auto simp: slice_bound_def)
  have hi: "k < ?hi" using assms by (auto simp: slice_bound_def)
  have "k - nat i < ?hi - ?lo" using lo hi assms by auto
  moreover have "nat i \<le> k" using assms by auto
  ultimately have "take (?hi - ?lo) (drop ?lo xs) ! (k - nat i) = xs ! k"
    using lo assms(4) by simp
  moreover have "k - nat i < length (take (?hi - ?lo) (drop ?lo xs))"
    using lo hi assms \<open>k - nat i < ?hi - ?lo\<close> by auto
  ultimately show ?thesis
    unfolding py_slice_def Let_def by (metis nth_mem)
qed

lemma sliding_chunk_start: "sliding_chunk words n i ''start_idx'' = Some (I i)"
  by (simp add: sliding_chunk_def)

lemma sliding_chunk_text:
  "sliding_chunk words n i ''text'' = Some (S (join '' '' (py_slice words i (i + n))))"
  by (simp add: sliding_chunk_def)

lemma sliding_chunks_ordered:
  "sorted_wrt start_before (map (sliding_chunk words n) (range_up i stop step))"
proof -
  have "sorted_wrt (\<lambda>a b. start_before (sliding_chunk words n a) (sliding_chunk words n b))
          (range_up i stop step)"
    by (rule sorted_wrt_mono_rel [OF _ range_up_increasing])
       (simp add: start_before_def sliding_chunk_start)
  then show ?thesis by (simp add: sorted_wrt_map)
qed

text \<open>
  Claim C10. With \<open>0 \<le> overlap < chunk_size\<close> the sliding window returns chunks whose
  start indices increase strictly (document order) and every word of the content lies in
  the word slice that some chunk joins into its text; with \<open>overlap = chunk_size\<close> the
  call raises \<open>ValueError\<close> (a range step of zero); with \<open>overlap > chunk_size\<close> it
  returns the empty list, whatever the content.
\<close>

theorem chunk_sliding_window_total:
  "(0 \<le> overlap \<and> overlap < chunk_size \<longrightarrow>
      (\<exists>cs. chunk_sliding_window content chunk_size overlap = Inr cs \<and>
         sorted_wrt start_before cs \<and>
         (\<forall>k < length (str_split content). \<exists>c \<in> set cs. \<exists>i.
            c ''start_idx'' = Some (I i) \<and>
            c ''text'' = Some (S (join '' '' (py_slice (str_split content) i (i + chunk_size)))) \<and>
            str_split content ! k \<in> set (py_slice (str_split content) i (i + chunk_size))))) \<and>
   (overlap = chunk_size \<longrightarrow> chunk_sliding_window content chunk_size overlap = Inl ValueError) \<and>
   (chunk_size < overlap \<longrightarrow> chunk_sliding_window content chunk_size overlap = Inr [])"
proof (intro conjI impI)
  assume a: "0 \<le> overlap \<and> overlap < chunk_size"
  let ?ws = "str_split content"
  let ?step = "chunk_size - overlap"
  let ?is = "range_up 0 (int (length ?ws)) ?step"
  let ?cs = "map (sliding_chunk ?ws chunk_size) ?is"
  from a have step: "0 < ?step" by simp
  then have res: "chunk_sliding_window content chunk_size overlap = Inr ?cs"
    by (simp add: chunk_sliding_window_def py_range_def Let_def)
  have cover: "\<exists>c \<in> set ?cs. \<exists>i. c ''start_idx'' = Some (I i) \<and>
            c ''text'' = Some (S (join '' '' (py_slice ?ws i (i + chunk_size)))) \<and>
            ?ws ! k \<in> set (py_slice ?ws i (i + chunk_size))" if k: "k < length ?ws" for k
  proof -
    from range_up_covers [OF step, of 0 "int k" "int (length ?ws)"] k
    obtain i where i: "i \<in> set ?is" "i \<le> int k" "int k < i + ?step" by auto
    from i(1) have "0 \<le> i" using range_up_bounds by blast
    with i a k have "?ws ! k \<in> set (py_slice ?ws i (i + chunk_size))"
      by (intro nth_in_py_slice) auto
    with i(1) show ?thesis
      using sliding_chunk_start sliding_chunk_text by (intro bexI [of _ "sliding_chunk ?ws chunk_size i"]) auto
  qed
  show "\<exists>cs. chunk_sliding_window content chunk_size overlap = Inr cs \<and>
         sorted_wrt start_before cs \<and>
         (\<forall>k < length ?ws. \<exists>c \<in> set cs. \<exists>i.
            c ''start_idx'' = Some (I i) \<and>
            c ''text'' = Some (S (join '' '' (py_slice ?ws i (i + chunk_size)))) \<and>
            ?ws ! k \<in> set (py_slice ?ws i (i + chunk_size)))"
    using res sliding_chunks_ordered cover by blast
next
  assume "overlap = chunk_size"
  then show "chunk_sliding_window content chunk_size overlap = Inl ValueError"
    by (simp add: chunk_sliding_window_def py_range_def)
next
  assume "chunk_size < overlap"
  then show "chunk_sliding_window content chunk_size overlap = Inr []"
    by (simp add: chunk_sliding_window_def py_range_def range_down_empty)
qed

text \<open>Claim C10 at a three-word text, for overlaps 1, 2 and 3 of a window of 2.\<close>

theorem chunk_sliding_window_total_witness:
  "(0::int) \<le> 1 \<and> (1::int) < 2 \<and>
   (\<exists>cs. chunk_sliding_window ''a b c'' 2 1 = Inr cs \<and> sorted_wrt start_before cs) \<and>
   chunk_sliding_window ''a b c'' 2 2 = Inl ValueError \<and>
   (2::int) < 3 \<and> chunk_sliding_window ''a b c'' 2 3 = Inr []"
  using chunk_sliding_window_total [of 1 2 "''a b c''"]
    chunk_sliding_window_total [of 2 2 "''a b c''"]
    chunk_sliding_window_total [of 3 2 "''a b c''"]
  by auto

subsection \<open>The document classifier\<close>

lemma fold_count:
  "fold (\<lambda>p s. if P p then s + w else s) ps (s0::int) = s0 + w * int (length (filter P ps))"
  by (induction ps arbitrary: s0) (simp_all add: algebra_simps)

lemma category_score_weighted:
  "category_score config filepath content = weighted_score config filepath content"
  by (simp add: category_score_def weighted_score_def Let_def fold_count)

lemma max_item_mem: "max_item best xs \<in> set (best # xs)"
  by (induction xs arbitrary: best) auto

lemma max_item_mono: "snd best \<le> snd (max_item best xs)"
proof (induction xs arbitrary: best)
  case Nil
  then show ?case by simp
next
  case (Cons y ys)
  have "snd best \<le> snd (if snd best < snd y then y else best)" by simp
  also have "\<dots> \<le> snd (max_item (if snd best < snd y then y else best) ys)" by (rule Cons.IH)
  finally show ?case by simp
qed

lemma max_item_ge: "x \<in> set xs \<Longrightarrow> snd x \<le> snd (max_item best xs)"
proof (induction xs arbitrary: best)
  case Nil
  then show ?case by simp
next
  case (Cons y ys)
  show ?case
  proof (cases "x = y")
    case True
    then have "snd x \<le> snd (if snd best < snd y then y else best)" by simp
    also have "\<dots> \<le> snd (max_item (if snd best < snd y then y else best) ys)"
      by (rule max_item_mono)
    finally show ?thesis by simp
  next
    case False
    with Cons.prems have "x \<in> set ys" by simp
    then show ?thesis using Cons.IH by simp
  qed
qed

lemma max_item_Max: "snd (max_item best xs) = Max (snd ` set (best # xs))"
proof (rule sym, rule Max_eqI)
  show "finite (snd ` set (best # xs))" by simp
  show "\<And>y. y \<in> snd ` set (best # xs) \<Longrightarrow> y \<le> snd (max_item best xs)"
    using max_item_ge [of _ xs best] max_item_mono [of best xs] by auto
  show "snd (max_item best xs) \<in> snd ` set (best # xs)"
    using max_item_mem by blast
qed

lemma categories_nonempty: "categories \<noteq> []"
  by (simp add: categories_def)

lemma distinct_category_names: "distinct (map fst categories)"
  by (simp add: categories_def)

lemma best_is_highest:
  "snd (max_item (hd (scores_of filepath content)) (tl (scores_of filepath content)))
     = highest_score filepath content"
proof -
  have ne: "scores_of filepath content \<noteq> []"
    using categories_nonempty by (simp add: scores_of_def)
  then have "hd (scores_of filepath content) # tl (scores_of filepath content) = scores_of filepath content"
    by simp
  then have "snd (max_item (hd (scores_of filepath content)) (tl (scores_of filepath content)))
      = Max (snd ` set (scores_of filepath content))"
    using max_item_Max [of "hd (scores_of filepath content)" "tl (scores_of filepath content)"] by simp
  moreover have "snd ` set (scores_of filepath content)
      = (\<lambda>(category, config). weighted_score config filepath content) ` set categories"
    by (force simp: scores_of_def category_score_weighted image_iff)
  ultimately show ?thesis by (simp add: highest_score_def)
qed

lemma best_in_table:
  "\<exists>config. map_of categories (fst (max_item (hd (scores_of filepath content)) (tl (scores_of filepath content)))) = Some config
     \<and> (fst (max_item (hd (scores_of filepath content)) (tl (scores_of filepath content))), config) \<in> set categories
     \<and> weighted_score config filepath content = highest_score filepath content"
proof -
  let ?sc = "scores_of filepath content"
  let ?b = "max_item (hd ?sc) (tl ?sc)"
  have ne: "?sc \<noteq> []" using categories_nonempty by (simp add: scores_of_def)
  then have "?b \<in> set ?sc" using max_item_mem [of "hd ?sc" "tl ?sc"] by simp
  then obtain config where c: "(fst ?b, config) \<in> set categories"
      "snd ?b = category_score config filepath content"
    by (auto simp: scores_of_def)
  from c(1) have "map_of categories (fst ?b) = Some config"
    using distinct_category_names by simp
  with c show ?thesis
    using best_is_highest [of filepath content] by (auto simp: category_score_weighted)
qed

text \<open>
  Claim C7. The score of a category is 10 for each of its keywords found in the lower-cased
  file name, plus 5 when the lower-cased suffix is one of its cat_extensions, plus 3 for each of
  its keywords found in the lower-cased first 1000 characters of the content. When the
  highest score is below 5 the result is the category \<open>general\<close> with the strategy
  \<open>sliding_window\<close>; otherwise it is a category of the table that reaches the highest
  score, with that category's strategy and chunk size, and the confidence is the score
  divided by 20, capped at 1.
\<close>

theorem categorize_document_floor:
  "(highest_score filepath content < 5 \<longrightarrow>
      categorize_document filepath content =
        \<lparr>dc_category = ''general'', dc_confidence = 3 / 10, dc_chunk_strategy = ''sliding_window'',
         dc_chunk_size = 800, dc_metadata_extractors = [''basic'']\<rparr>) \<and>
   (5 \<le> highest_score filepath content \<longrightarrow>
      (\<exists>config. (dc_category (categorize_document filepath content), config) \<in> set categories \<and>
         weighted_score config filepath content = highest_score filepath content \<and>
         dc_confidence (categorize_document filepath content)
           = min (of_int (highest_score filepath content) / 20) 1 \<and>
         dc_chunk_strategy (categorize_document filepath content) = cat_chunk_strategy config \<and>
         dc_chunk_size (categorize_document filepath content) = cat_chunk_size config))"
proof (intro conjI impI)
  assume "highest_score filepath content < 5"
  then show "categorize_document filepath content =
        \<lparr>dc_category = ''general'', dc_confidence = 3 / 10, dc_chunk_strategy = ''sliding_window'',
         dc_chunk_size = 800, dc_metadata_extractors = [''basic'']\<rparr>"
    using best_is_highest [of filepath content]
    by (simp add: categorize_document_def scores_of_def Let_def)
next
  assume a: "5 \<le> highest_score filepath content"
  from best_in_table [of filepath content] obtain config where
    c: "map_of categories (fst (max_item (hd (scores_of filepath content)) (tl (scores_of filepath content)))) = Some config"
       "(fst (max_item (hd (scores_of filepath content)) (tl (scores_of filepath content))), config) \<in> set categories"
       "weighted_score config filepath content = highest_score filepath content"
    by blast
  have r: "categorize_document filepath content =
      \<lparr>dc_category = fst (max_item (hd (scores_of filepath content)) (tl (scores_of filepath content))),
       dc_confidence = min (of_int (highest_score filepath content) / 20) 1,
       dc_chunk_strategy = cat_chunk_strategy config,
       dc_chunk_size = cat_chunk_size config,
       dc_metadata_extractors = get_extractors (fst (max_item (hd (scores_of filepath content)) (tl (scores_of filepath content))))\<rparr>"
    using a c(1) best_is_highest [of filepath content]
    unfolding categorize_document_def scores_of_def [symmetric] Let_def
    by simp
  show "\<exists>config. (dc_category (categorize_document filepath content), config) \<in> set categories \<and>
         weighted_score config filepath content = highest_score filepath content \<and>
         dc_confidence (categorize_document filepath content)
           = min (of_int (highest_score filepath content) / 20) 1 \<and>
         dc_chunk_strategy (categorize_document filepath content) = cat_chunk_strategy config \<and>
         dc_chunk_size (categorize_document filepath content) = cat_chunk_size config"
    using c(2,3) by (intro exI [of _ config]) (simp add: r)
qed


text \<open>Claim C7 at a file that matches nothing and at a README in Markdown.\<close>

theorem categorize_document_floor_witness:
  "highest_score ''notes.bin'' ''hello'' < 5 \<and>
   dc_category (categorize_document ''notes.bin'' ''hello'') = ''general'' \<and>
   dc_chunk_strategy (categorize_document ''notes.bin'' ''hello'') = ''sliding_window'' \<and>
   5 \<le> highest_score ''docs/README.md'' ''This guide explains the setup.'' \<and>
   dc_confidence (categorize_document ''docs/README.md'' ''This guide explains the setup.'')
     = min (of_int (highest_score ''docs/README.md'' ''This guide explains the setup.'') / 20) 1"
proof -
  have a: "highest_score ''notes.bin'' ''hello'' < 5" by code_simp
  have b: "5 \<le> highest_score ''docs/README.md'' ''This guide explains the setup.''" by code_simp
  show ?thesis
    using a b categorize_document_floor [of "''notes.bin''" "''hello''"]
      categorize_document_floor [of "''docs/README.md''" "''This guide explains the setup.''"]
    by auto
qed

subsection \<open>Rank fusion\<close>

lemma set_argsort: "set (argsort scores) = {0..<length scores}"
  by (simp add: argsort_def)

lemma top_k_rank_bound: "i \<in> set (top_k_rank score q corpus k) \<Longrightarrow> i < length corpus"
proof -
  assume "i \<in> set (top_k_rank score q corpus k)"
  then have "i \<in> set (rev (argsort (map (score q corpus) [0..<length corpus])))"
    unfolding top_k_rank_def by (rule in_set_takeD)
  then show ?thesis by (simp add: set_argsort)
qed

lemma keep_first_seen_cong:
  "set seen = set seen' \<Longrightarrow> keep_first key seen xs = keep_first key seen' xs"
proof (induction xs arbitrary: seen seen')
  case Nil
  then show ?case by simp
next
  case (Cons x xs)
  have "set (key x # seen) = set (key x # seen')" using Cons.prems by simp
  then have "keep_first key (key x # seen) xs = keep_first key (key x # seen') xs"
    by (rule Cons.IH)
  moreover have "keep_first key seen xs = keep_first key seen' xs"
    using Cons.prems by (rule Cons.IH)
  ultimately show ?case using Cons.prems by simp
qed

lemma fold_fromkeys:
  "fold (\<lambda>x keys. if x \<in> set keys then keys else keys @ [x]) xs acc
     = acc @ keep_first (\<lambda>x. x) acc xs"
proof (induction xs arbitrary: acc)
  case Nil
  then show ?case by simp
next
  case (Cons x xs)
  show ?case
  proof (cases "x \<in> set acc")
    case True
    with Cons.IH [of acc] show ?thesis by simp
  next
    case False
    have "keep_first (\<lambda>x. x) (acc @ [x]) xs = keep_first (\<lambda>x. x) (x # acc) xs"
      by (rule keep_first_seen_cong) auto
    with Cons.IH [of "acc @ [x]"] False show ?thesis by simp
  qed
qed

lemma fromkeys_keep_first: "fromkeys xs = keep_first (\<lambda>x. x) [] xs"
  using fold_fromkeys [of xs "[]"] by (simp add: fromkeys_def)

lemma keep_first_subset: "set (keep_first key seen xs) \<subseteq> set xs"
  by (induction xs arbitrary: seen) auto

lemma keep_first_fresh: "\<forall>y \<in> set (keep_first key seen xs). key y \<notin> set seen"
proof (induction xs arbitrary: seen)
  case Nil
  then show ?case by simp
next
  case (Cons x xs)
  show ?case
  proof (cases "key x \<in> set seen")
    case True
    then show ?thesis using Cons.IH [of seen] by simp
  next
    case False
    then show ?thesis using Cons.IH [of "key x # seen"] by auto
  qed
qed

lemma keep_first_distinct: "distinct (map key (keep_first key seen xs))"
proof (induction xs arbitrary: seen)
  case Nil
  then show ?case by simp
next
  case (Cons x xs)
  have "key x \<notin> key ` set (keep_first key (key x # seen) xs)"
    using keep_first_fresh [of key "key x # seen" xs] by auto
  with Cons.IH show ?case by simp
qed

lemma keep_first_map:
  "inj_on (\<lambda>i. key (f i)) (set seen \<union> set xs) \<Longrightarrow>
   map f (keep_first (\<lambda>x. x) seen xs) = keep_first key (map (\<lambda>i. key (f i)) seen) (map f xs)"
proof (induction xs arbitrary: seen)
  case Nil
  then show ?case by simp
next
  case (Cons x xs)
  let ?g = "\<lambda>i. key (f i)"
  have mem: "?g x \<in> ?g ` set seen \<longleftrightarrow> x \<in> set seen"
    using Cons.prems by (intro inj_on_image_mem_iff [of ?g "set seen \<union> set (x # xs)"]) auto
  have "inj_on ?g (set seen \<union> set xs)" "inj_on ?g (set (x # seen) \<union> set xs)"
    using Cons.prems by (auto intro: inj_on_subset)
  then have ih: "map f (keep_first (\<lambda>x. x) seen xs) = keep_first key (map ?g seen) (map f xs)"
    "map f (keep_first (\<lambda>x. x) (x # seen) xs) = keep_first key (map ?g (x # seen)) (map f xs)"
    using Cons.IH by blast+
  show ?case using mem ih by simp
qed

lemma nth_fst_inj:
  "distinct (map fst xs) \<Longrightarrow> inj_on (\<lambda>i. fst (xs ! i)) {0..<length xs}"
proof (rule inj_onI)
  fix i j
  assume d: "distinct (map fst xs)" and ij: "i \<in> {0..<length xs}" "j \<in> {0..<length xs}"
    and eq: "fst (xs ! i) = fst (xs ! j)"
  from ij eq have "map fst xs ! i = map fst xs ! j" by simp
  with nth_eq_iff_index_eq [OF d, of i j] ij show "i = j" by simp
qed

lemma distinct_snapshot: "distinct (map fst coll) \<Longrightarrow> distinct (map fst (snapshot coll))"
  by (simp add: snapshot_def distinct_take take_map [symmetric])

lemma search_empty: "search bm25_score embed_sim cfg [] question = ([], [])"
  by (simp add: search_def)

lemma search_nonempty:
  assumes "coll \<noteq> []"
  shows "search bm25_score embed_sim cfg coll question =
    (map (\<lambda>i. (map fst (snapshot coll) ! i, map (\<lambda>r. fst (snd r)) (snapshot coll) ! i,
              if i < length (map (\<lambda>r. snd (snd r)) (snapshot coll))
              then map (\<lambda>r. snd (snd r)) (snapshot coll) ! i else Map.empty))
       (take (combine_top_k cfg)
          (fromkeys
             (top_k_rank bm25_score question (map (\<lambda>r. fst (snd r)) (snapshot coll))
                (min (k_bm25 cfg) (length (map (\<lambda>r. fst (snd r)) (snapshot coll))))
              @ top_k_rank embed_sim question (map (\<lambda>r. fst (snd r)) (snapshot coll))
                (min (k_embed cfg) (length (map (\<lambda>r. fst (snd r)) (snapshot coll))))))),
     [Lexical, Semantic])"
proof -
  have a: "length coll \<noteq> 0" using assms by simp
  have b: "map (\<lambda>r. fst (snd r)) (take (min 200 (length coll)) coll) \<noteq> []"
    using assms by (cases coll) simp_all
  show ?thesis
    unfolding search_def Let_def snapshot_def
    by (simp only: a b if_False)
qed

lemma fuse_entries:
  assumes "inj_on (\<lambda>i. key (f i)) (set xs)"
  shows "map f (fromkeys xs) = keep_first key [] (map f xs)"
  using assms keep_first_map [of key f "[]" xs] by (simp add: fromkeys_keep_first)

lemma argsort_descending:
  "sorted_wrt (\<lambda>i j. scores ! j \<le> scores ! i) (rev (argsort scores))"
proof -
  have "sorted (map (\<lambda>i. scores ! i) (argsort scores))"
    unfolding argsort_def by (rule sorted_sort_key)
  then have "sorted_wrt (\<lambda>i j. scores ! i \<le> scores ! j) (argsort scores)"
    by (simp add: sorted_map)
  then show ?thesis by (simp add: sorted_wrt_rev)
qed

lemma argsort_top: "is_top_k scores k (take k (rev (argsort scores)))"
proof -
  let ?xs = "rev (argsort scores)"
  let ?P = "\<lambda>i j. scores ! j \<le> scores ! i"
  have len: "length ?xs = length scores" by (simp add: argsort_def)
  have dist: "distinct ?xs" by (simp add: argsort_def)
  have set: "set ?xs = {0..<length scores}" by (simp add: set_argsort)
  have sorted: "sorted_wrt ?P ?xs" by (rule argsort_descending)
  have split: "sorted_wrt ?P (take k ?xs @ drop k ?xs)" using sorted by simp
  have a: "length (take k ?xs) = min k (length scores)" using len by simp
  have b: "distinct (take k ?xs)" using dist by (rule distinct_take)
  have c: "\<forall>i \<in> set (take k ?xs). i < length scores"
    using set by (auto dest: in_set_takeD)
  have d: "sorted_wrt ?P (take k ?xs)" using sorted by (rule sorted_wrt_take)
  have e: "\<forall>j \<in> set [0..<length scores]. j \<notin> set (take k ?xs)
             \<longrightarrow> (\<forall>i \<in> set (take k ?xs). scores ! j \<le> scores ! i)"
  proof (intro ballI impI)
    fix j i
    assume j: "j \<in> set [0..<length scores]" "j \<notin> set (take k ?xs)" and i: "i \<in> set (take k ?xs)"
    have "set ?xs = set (take k ?xs) \<union> set (drop k ?xs)"
      by (metis append_take_drop_id set_append)
    with j set have "j \<in> set (drop k ?xs)" by auto
    with i split [unfolded sorted_wrt_append] show "scores ! j \<le> scores ! i" by blast
  qed
  from a b c d e show ?thesis unfolding is_top_k_def by blast
qed

lemma is_top_k_min: "is_top_k scores (min k (length scores)) idx = is_top_k scores k idx"
  by (simp add: is_top_k_def)

lemma top_k_rank_top:
  "is_top_k (snapshot_scores score question coll) k
     (top_k_rank score question (map (\<lambda>r. fst (snd r)) (snapshot coll))
        (min k (length (map (\<lambda>r. fst (snd r)) (snapshot coll)))))"
proof -
  let ?scores = "snapshot_scores score question coll"
  have len: "length ?scores = length (snapshot coll)" by (simp add: snapshot_scores_def)
  have "is_top_k ?scores (min k (length ?scores)) (take (min k (length ?scores)) (rev (argsort ?scores)))"
    by (rule argsort_top)
  then have "is_top_k ?scores k (take (min k (length ?scores)) (rev (argsort ?scores)))"
    by (simp only: is_top_k_min)
  then show ?thesis
    by (simp add: top_k_rank_def snapshot_scores_def)
qed

lemma search_fused:
  assumes "distinct (map fst coll)"
  shows "fst (search bm25_score embed_sim cfg coll question)
     = fusion coll (combine_top_k cfg)
         (top_k_rank bm25_score question (map (\<lambda>r. fst (snd r)) (snapshot coll))
            (min (k_bm25 cfg) (length (map (\<lambda>r. fst (snd r)) (snapshot coll)))))
         (top_k_rank embed_sim question (map (\<lambda>r. fst (snd r)) (snapshot coll))
            (min (k_embed cfg) (length (map (\<lambda>r. fst (snd r)) (snapshot coll)))))"
proof (cases "coll = []")
  case True
  then show ?thesis
    by (simp add: search_def fusion_def snapshot_def top_k_rank_def argsort_def)
next
  case False
  let ?res = "snapshot coll"
  let ?docs = "map (\<lambda>r. fst (snd r)) ?res"
  let ?bm = "top_k_rank bm25_score question ?docs (min (k_bm25 cfg) (length ?docs))"
  let ?em = "top_k_rank embed_sim question ?docs (min (k_embed cfg) (length ?docs))"
  let ?entry = "\<lambda>i. ?res ! i"
  have bound: "i < length ?res" if "i \<in> set (?bm @ ?em)" for i
    using that by (auto dest: top_k_rank_bound)
  have entry: "(map fst ?res ! i, ?docs ! i,
        if i < length (map (\<lambda>r. snd (snd r)) ?res) then map (\<lambda>r. snd (snd r)) ?res ! i else Map.empty)
      = ?entry i" if "i < length ?res" for i
    using that by (simp add: prod_eq_iff)
  have merged_bound: "i < length ?res"
    if "i \<in> set (take (combine_top_k cfg) (fromkeys (?bm @ ?em)))" for i
  proof -
    from that have "i \<in> set (fromkeys (?bm @ ?em))" by (rule in_set_takeD)
    then have "i \<in> set (?bm @ ?em)"
      using keep_first_subset [of "\<lambda>x. x" "[]" "?bm @ ?em"] by (auto simp: fromkeys_keep_first)
    then show ?thesis by (rule bound)
  qed
  have out: "fst (search bm25_score embed_sim cfg coll question)
      = map ?entry (take (combine_top_k cfg) (fromkeys (?bm @ ?em)))"
  proof -
    have "fst (search bm25_score embed_sim cfg coll question)
      = map (\<lambda>i. (map fst ?res ! i, ?docs ! i,
           if i < length (map (\<lambda>r. snd (snd r)) ?res) then map (\<lambda>r. snd (snd r)) ?res ! i else Map.empty))
          (take (combine_top_k cfg) (fromkeys (?bm @ ?em)))"
      by (simp only: search_nonempty [OF False] fst_conv)
    also have "\<dots> = map ?entry (take (combine_top_k cfg) (fromkeys (?bm @ ?em)))"
    proof (rule map_cong [OF refl])
      fix i
      assume "i \<in> set (take (combine_top_k cfg) (fromkeys (?bm @ ?em)))"
      then have "i < length ?res" by (rule merged_bound)
      then show "(map fst ?res ! i, ?docs ! i,
           if i < length (map (\<lambda>r. snd (snd r)) ?res) then map (\<lambda>r. snd (snd r)) ?res ! i else Map.empty)
         = ?entry i" by (rule entry)
    qed
    finally show ?thesis .
  qed
  have inj_all: "inj_on (\<lambda>i. fst (?res ! i)) {0..<length ?res}"
    using assms by (intro nth_fst_inj distinct_snapshot)
  have sub: "set (?bm @ ?em) \<subseteq> {0..<length ?res}"
  proof
    fix i assume "i \<in> set (?bm @ ?em)"
    then have "i < length ?res" by (rule bound)
    then show "i \<in> {0..<length ?res}" by simp
  qed
  have inj: "inj_on (\<lambda>i. fst (?res ! i)) (set (?bm @ ?em))"
    by (rule inj_on_subset [OF inj_all sub])
  have walk: "map ?entry (fromkeys (?bm @ ?em)) = keep_first fst [] (map ?entry (?bm @ ?em))"
    by (rule fuse_entries [of fst ?entry, OF inj])
  have "fst (search bm25_score embed_sim cfg coll question)
      = take (combine_top_k cfg) (map ?entry (fromkeys (?bm @ ?em)))"
    by (simp only: out take_map)
  also have "\<dots> = take (combine_top_k cfg) (keep_first fst [] (map ?entry (?bm @ ?em)))"
    by (simp only: walk)
  finally show ?thesis by (simp only: fusion_def)
qed

lemma fusion_distinct: "distinct (map fst (fusion coll top_k lexical semantic))"
proof -
  let ?walk = "keep_first fst [] (map (\<lambda>i. snapshot coll ! i) (lexical @ semantic))"
  have "distinct (map fst ?walk)" by (rule keep_first_distinct)
  then have "distinct (take top_k (map fst ?walk))" by (rule distinct_take)
  then show ?thesis by (simp add: fusion_def take_map)
qed

lemma snapshot_empty: "snapshot coll = [] \<longleftrightarrow> coll = []"
  by (cases coll) (simp_all add: snapshot_def)

lemma three_chunks_lexical: "snapshot_scores by_length q three_chunks = [5, 2, 3]"
  by (simp add: snapshot_scores_def snapshot_def three_chunks_def by_length_def upt_rec)

lemma three_chunks_semantic: "snapshot_scores by_shortness q three_chunks = [5, 8, 7]"
  by (simp add: snapshot_scores_def snapshot_def three_chunks_def by_shortness_def upt_rec)

lemma top_two_pair:
  assumes "is_top_k scores 2 idx" "length scores = 3"
  obtains a b where "idx = [a, b]" "a < 3" "b < 3" "a \<noteq> b" "scores ! b \<le> scores ! a"
    "\<forall>j < 3. j \<noteq> a \<and> j \<noteq> b \<longrightarrow> scores ! j \<le> scores ! a \<and> scores ! j \<le> scores ! b"
proof -
  from assms have "length idx = 2" by (simp add: is_top_k_def)
  then obtain a b where idx: "idx = [a, b]"
    by (metis (no_types) length_0_conv length_Suc_conv numeral_2_eq_2)
  show ?thesis
    using assms that [of a b] unfolding idx is_top_k_def by auto
qed

lemma top_two_lexical: "is_top_k [5::nat, 2, 3] 2 idx \<longleftrightarrow> idx = [0, 2]"
proof
  assume top: "is_top_k [5::nat, 2, 3] 2 idx"
  then obtain a b where ab: "idx = [a, b]" "a < 3" "b < 3" "a \<noteq> b" "[5::nat, 2, 3] ! b \<le> [5, 2, 3] ! a"
    "\<forall>j < 3. j \<noteq> a \<and> j \<noteq> b \<longrightarrow> [5::nat, 2, 3] ! j \<le> [5, 2, 3] ! a \<and> [5::nat, 2, 3] ! j \<le> [5, 2, 3] ! b"
    by (rule top_two_pair) simp
  from ab(2) have a: "a = 0 \<or> a = 1 \<or> a = 2" by arith
  from ab(3) have b: "b = 0 \<or> b = 1 \<or> b = 2" by arith
  from a b ab(4,5) ab(6) [rule_format, of 0] ab(6) [rule_format, of 1] ab(6) [rule_format, of 2]
  show "idx = [0, 2]" unfolding ab(1) by auto
next
  assume "idx = [0, 2]"
  then show "is_top_k [5::nat, 2, 3] 2 idx" by (simp add: is_top_k_def upt_rec)
qed

lemma top_two_semantic: "is_top_k [5::nat, 8, 7] 2 idx \<longleftrightarrow> idx = [1, 2]"
proof
  assume top: "is_top_k [5::nat, 8, 7] 2 idx"
  then obtain a b where ab: "idx = [a, b]" "a < 3" "b < 3" "a \<noteq> b" "[5::nat, 8, 7] ! b \<le> [5, 8, 7] ! a"
    "\<forall>j < 3. j \<noteq> a \<and> j \<noteq> b \<longrightarrow> [5::nat, 8, 7] ! j \<le> [5, 8, 7] ! a \<and> [5::nat, 8, 7] ! j \<le> [5, 8, 7] ! b"
    by (rule top_two_pair) simp
  from ab(2) have a: "a = 0 \<or> a = 1 \<or> a = 2" by arith
  from ab(3) have b: "b = 0 \<or> b = 1 \<or> b = 2" by arith
  from a b ab(4,5) ab(6) [rule_format, of 0] ab(6) [rule_format, of 1] ab(6) [rule_format, of 2]
  show "idx = [1, 2]" unfolding ab(1) by auto
next
  assume "idx = [1, 2]"
  then show "is_top_k [5::nat, 8, 7] 2 idx" by (simp add: is_top_k_def upt_rec)
qed

lemma three_chunks_fusion:
  "map fst (fusion three_chunks 3 [0, 2] [1, 2]) = [''id1'', ''id3'', ''id2'']"
  by (simp add: fusion_def snapshot_def three_chunks_def)

text \<open>
  Claim C5. When the chunk identifiers of the store are distinct, the result of \<open>search\<close>
  has no duplicate chunk identifier and at most \<open>combine_top_k\<close> entries. It is a lexical
  top-K followed by a semantic top-K, with only the first occurrence of each chunk
  identifier kept, truncated to \<open>combine_top_k\<close>: each of the two lists holds K entries
  of the snapshot (all of them when the snapshot has fewer) in descending order of the
  ranker's score, and no entry left out scores higher than an entry of the list. On an
  empty snapshot the result is empty and no ranker is invoked.
\<close>

theorem search_fusion:
  assumes "distinct (map fst coll)"
  shows "distinct (map fst (fst (search bm25_score embed_sim cfg coll question))) \<and>
         length (fst (search bm25_score embed_sim cfg coll question)) \<le> combine_top_k cfg \<and>
         (\<exists>lexical semantic.
            is_top_k (snapshot_scores bm25_score question coll) (k_bm25 cfg) lexical \<and>
            is_top_k (snapshot_scores embed_sim question coll) (k_embed cfg) semantic \<and>
            fst (search bm25_score embed_sim cfg coll question)
              = fusion coll (combine_top_k cfg) lexical semantic) \<and>
         (snapshot coll = [] \<longrightarrow> search bm25_score embed_sim cfg coll question = ([], []))"
proof -
  let ?docs = "map (\<lambda>r. fst (snd r)) (snapshot coll)"
  let ?bm = "top_k_rank bm25_score question ?docs (min (k_bm25 cfg) (length ?docs))"
  let ?em = "top_k_rank embed_sim question ?docs (min (k_embed cfg) (length ?docs))"
  have eq: "fst (search bm25_score embed_sim cfg coll question)
      = fusion coll (combine_top_k cfg) ?bm ?em"
    using assms by (rule search_fused)
  have bm: "is_top_k (snapshot_scores bm25_score question coll) (k_bm25 cfg) ?bm"
    by (rule top_k_rank_top)
  have em: "is_top_k (snapshot_scores embed_sim question coll) (k_embed cfg) ?em"
    by (rule top_k_rank_top)
  have d: "distinct (map fst (fst (search bm25_score embed_sim cfg coll question)))"
    unfolding eq by (rule fusion_distinct)
  have l: "length (fst (search bm25_score embed_sim cfg coll question)) \<le> combine_top_k cfg"
    unfolding eq by (simp add: fusion_def)
  have e: "snapshot coll = [] \<longrightarrow> search bm25_score embed_sim cfg coll question = ([], [])"
    by (simp add: snapshot_empty search_empty)
  from bm em eq have "\<exists>lexical semantic.
            is_top_k (snapshot_scores bm25_score question coll) (k_bm25 cfg) lexical \<and>
            is_top_k (snapshot_scores embed_sim question coll) (k_embed cfg) semantic \<and>
            fst (search bm25_score embed_sim cfg coll question)
              = fusion coll (combine_top_k cfg) lexical semantic"
    by blast
  with d l e show ?thesis by blast
qed

text \<open>
  Claim C5 on a store of three chunks, the lexical ranker preferring long documents and
  the semantic ranker short ones: the lexical top-2 is \<open>id1\<close>, \<open>id3\<close>, the semantic top-2
  is \<open>id2\<close>, \<open>id3\<close>, and the result is \<open>id1\<close>, \<open>id3\<close>, \<open>id2\<close>; and on the empty store.
\<close>

theorem search_fusion_witness:
  "distinct (map fst three_chunks) \<and>
   is_top_k (snapshot_scores by_length ''q'' three_chunks) 2 [0, 2] \<and>
   is_top_k (snapshot_scores by_shortness ''q'' three_chunks) 2 [1, 2] \<and>
   map fst (fst (search by_length by_shortness \<lparr>k_bm25 = 2, k_embed = 2, combine_top_k = 3\<rparr>
                   three_chunks ''q''))
     = [''id1'', ''id3'', ''id2''] \<and>
   snapshot [] = [] \<and>
   search by_length by_shortness \<lparr>k_bm25 = 2, k_embed = 2, combine_top_k = 3\<rparr> [] ''q'' = ([], [])"
proof -
  let ?cfg = "\<lparr>k_bm25 = 2, k_embed = 2, combine_top_k = 3\<rparr>"
  have d: "distinct (map fst three_chunks)" by (simp add: three_chunks_def)
  have d0: "distinct (map fst ([] :: collection))" by simp
  note r = search_fusion [OF d, of by_length by_shortness ?cfg "''q''"]
  note r0 = search_fusion [OF d0, of by_length by_shortness ?cfg "''q''"]
  from r obtain lexical semantic where
    t: "is_top_k (snapshot_scores by_length ''q'' three_chunks) 2 lexical"
       "is_top_k (snapshot_scores by_shortness ''q'' three_chunks) 2 semantic"
    and f: "fst (search by_length by_shortness ?cfg three_chunks ''q'')
              = fusion three_chunks 3 lexical semantic"
    by auto
  from t have ls: "lexical = [0, 2]" "semantic = [1, 2]"
    by (simp_all add: three_chunks_lexical three_chunks_semantic top_two_lexical top_two_semantic)
  have a: "is_top_k (snapshot_scores by_length ''q'' three_chunks) 2 [0, 2]"
    "is_top_k (snapshot_scores by_shortness ''q'' three_chunks) 2 [1, 2]"
    using t ls by simp_all
  have b: "map fst (fst (search by_length by_shortness ?cfg three_chunks ''q''))
     = [''id1'', ''id3'', ''id2'']"
    unfolding f ls by (rule three_chunks_fusion)
  have s: "snapshot [] = []" by (simp add: snapshot_def)
  from r0 s have c: "search by_length by_shortness ?cfg [] ''q'' = ([], [])" by blast
  from d a b s c show ?thesis by blast
qed

subsection \<open>The task registry\<close>

lemma start_ingestion_active_same_profile:
  assumes "active_task m = Some a" "tasks m a = Some t"
    "task_profile_name t = profile" "\<not> terminal (task_status t)"
  shows "start_ingestion m profile fresh_id = (task_id t, m)"
  using assms by (simp add: start_ingestion_def)

text \<open>
  Claim C9 fails on the code. The registry has one \<open>active_task\<close> slot for all profiles:
  after ingestion is started for profile A, then for profile B, a third call for A finds
  B's task in the slot, creates a second task for A and returns the new identifier, while
  the first task of A is still in state \<open>PREPARING\<close>.
\<close>

theorem start_ingestion_two_running:
  "(let (i1, m1) = start_ingestion empty_manager ''A'' ''t1'';
        (i2, m2) = start_ingestion m1 ''B'' ''t2'';
        (i3, m3) = start_ingestion m2 ''A'' ''t3''
    in i1 = ''t1'' \<and> i3 = ''t3'' \<and> running_for m3 ''A'' [''t1'', ''t2'', ''t3''] = [''t1'', ''t3''])"
  by (simp add: start_ingestion_def empty_manager_def new_task_def running_for_def terminal_def)

subsection \<open>Change detection\<close>

lemma check_url_changes_refetched:
  assumes "db url = Some row" "http_head net url = Inr headers"
    "header_signals (Some row) headers = Inr signals" "signals \<noteq> []"
    "http_get_text net url = Inr content"
  shows "ch_error (check_url_changes content_hash db net url) = None"
    and "ch_is_new (check_url_changes content_hash db net url) = False"
    and "ch_has_changed (check_url_changes content_hash db net url)
           = Some (content_hash content \<noteq> dm_content_hash row)"
    and "content_hash content \<noteq> dm_content_hash row \<Longrightarrow>
           ch_old_hash (check_url_changes content_hash db net url) = Some (dm_content_hash row) \<and>
           ch_new_hash (check_url_changes content_hash db net url) = Some (content_hash content)"
proof -
  have parse: "truthy (hd_content_length headers) \<Longrightarrow>
      \<exists>n. py_int (the (hd_content_length headers)) = Some n"
    using assms(3) by (auto simp: header_signals_def Let_def split: option.splits if_splits)
  show "ch_error (check_url_changes content_hash db net url) = None"
    using assms parse
    by (auto simp: check_url_changes_def Let_def failed_def split: option.splits)
  show "ch_is_new (check_url_changes content_hash db net url) = False"
    using assms parse
    by (auto simp: check_url_changes_def Let_def failed_def split: option.splits)
  show "ch_has_changed (check_url_changes content_hash db net url)
           = Some (content_hash content \<noteq> dm_content_hash row)"
    using assms parse
    by (auto simp: check_url_changes_def Let_def failed_def split: option.splits)
  show "content_hash content \<noteq> dm_content_hash row \<Longrightarrow>
           ch_old_hash (check_url_changes content_hash db net url) = Some (dm_content_hash row) \<and>
           ch_new_hash (check_url_changes content_hash db net url) = Some (content_hash content)"
    using assms parse
    by (auto simp: check_url_changes_def Let_def failed_def split: option.splits)
qed

text \<open>
  Claim C4. For a URL with a stored row of hash \<open>H\<close>, when a header signal fires (the ETag,
  Last-Modified or Content-Length header differs from the stored value) and the content is
  fetched again: \<open>has_changed\<close> is false when the stable hash of the content equals \<open>H\<close>,
  and the scan then leaves the change log as it is; when the stable hash is
  \<open>H' \<noteq> H\<close>, \<open>has_changed\<close> is true and the scan appends to the change log a record of
  type \<open>content\<close> with old hash \<open>H\<close> and new hash \<open>H'\<close>.
\<close>

theorem check_url_changes_hash_decides:
  assumes "db url = Some row" "http_head net url = Inr headers"
    "header_signals (Some row) headers = Inr signals" "signals \<noteq> []"
    "http_get_text net url = Inr content"
  shows "(content_hash content = dm_content_hash row \<longrightarrow>
            ch_has_changed (check_url_changes content_hash db net url) = Some False \<and>
            snd (scan_for_changes content_hash db net [url] change_log) = change_log) \<and>
         (content_hash content \<noteq> dm_content_hash row \<longrightarrow>
            ch_has_changed (check_url_changes content_hash db net url) = Some True \<and>
            snd (scan_for_changes content_hash db net [url] change_log)
              = change_log @ [\<lparr>cr_url = url, cr_change_type = ''content'',
                                cr_old_hash = Some (dm_content_hash row),
                                cr_new_hash = Some (content_hash content)\<rparr>])"
proof -
  note r = check_url_changes_refetched [of db url row net headers signals content content_hash, OF assms]
  show ?thesis
    using r by (auto simp: scan_for_changes_def scan_url_def Let_def truthy_def)
qed

text \<open>
  Claim C4 at a URL stored with hash \<open>h1\<close> and ETag \<open>e1\<close> whose server now answers with
  ETag \<open>e2\<close>: once with content of the same hash, once with content of hash \<open>h2\<close>.
\<close>

theorem check_url_changes_hash_decides_witness:
  "ch_has_changed (check_url_changes (\<lambda>c. c)
      [''u'' \<mapsto> \<lparr>dm_content_hash = ''h1'', dm_last_modified = None, dm_etag = Some ''e1'',
                 dm_content_length = None\<rparr>]
      \<lparr>http_head = (\<lambda>u. Inr \<lparr>hd_etag = Some ''e2'', hd_last_modified = None, hd_content_length = None\<rparr>),
       http_get_text = (\<lambda>u. Inr ''h1'')\<rparr> ''u'') = Some False \<and>
   snd (scan_for_changes (\<lambda>c. c)
      [''u'' \<mapsto> \<lparr>dm_content_hash = ''h1'', dm_last_modified = None, dm_etag = Some ''e1'',
                 dm_content_length = None\<rparr>]
      \<lparr>http_head = (\<lambda>u. Inr \<lparr>hd_etag = Some ''e2'', hd_last_modified = None, hd_content_length = None\<rparr>),
       http_get_text = (\<lambda>u. Inr ''h2'')\<rparr> [''u''] [])
     = [\<lparr>cr_url = ''u'', cr_change_type = ''content'', cr_old_hash = Some ''h1'',
         cr_new_hash = Some ''h2''\<rparr>]"
proof -
  let ?row = "\<lparr>dm_content_hash = ''h1'', dm_last_modified = None, dm_etag = Some ''e1'',
                 dm_content_length = None\<rparr>"
  let ?db = "[''u'' \<mapsto> ?row]"
  let ?headers = "\<lparr>hd_etag = Some ''e2'', hd_last_modified = None, hd_content_length = None\<rparr>"
  let ?net1 = "\<lparr>http_head = (\<lambda>u. Inr ?headers), http_get_text = (\<lambda>u. Inr ''h1'')\<rparr>"
  let ?net2 = "\<lparr>http_head = (\<lambda>u. Inr ?headers), http_get_text = (\<lambda>u. Inr ''h2'')\<rparr>"
  have db: "?db ''u'' = Some ?row" by simp
  have sig: "header_signals (Some ?row) ?headers = Inr [(''etag'', 9 / 10)]"
    by (simp add: header_signals_def truthy_def)
  have ne: "[(''etag'', 9 / 10 :: rat)] \<noteq> []" by simp
  have h1: "http_head ?net1 ''u'' = Inr ?headers" "http_get_text ?net1 ''u'' = Inr ''h1''" by simp_all
  have h2: "http_head ?net2 ''u'' = Inr ?headers" "http_get_text ?net2 ''u'' = Inr ''h2''" by simp_all
  note a = check_url_changes_hash_decides [of ?db "''u''" ?row ?net1 ?headers _ "''h1''" "\<lambda>c. c" "[]",
      OF db h1(1) sig ne h1(2)]
  note b = check_url_changes_hash_decides [of ?db "''u''" ?row ?net2 ?headers _ "''h2''" "\<lambda>c. c" "[]",
      OF db h2(1) sig ne h2(2)]
  from a b show ?thesis by simp
qed

subsection \<open>Chunking strategies on texts without markers\<close>

lemma split_on_chars_all: "\<forall>l \<in> set (split_on sep cur s). set l \<subseteq> set cur \<union> set s"
proof (induction s arbitrary: cur)
  case Nil
  show ?case by simp
next
  case (Cons c cs)
  show ?case
  proof (cases "c = sep")
    case True
    then show ?thesis using Cons.IH [of "[]"] by auto
  next
    case False
    then show ?thesis using Cons.IH [of "cur @ [c]"] by auto
  qed
qed

lemma split_on_chars: "l \<in> set (split_on sep cur s) \<Longrightarrow> set l \<subseteq> set cur \<union> set s"
  using split_on_chars_all by blast

lemma split_on_nonempty: "split_on sep cur s \<noteq> []"
  by (induction s arbitrary: cur) auto

lemma chunk_by_records_plain:
  assumes "CHR '','' \<notin> set content" "CHR 0x09 \<notin> set content"
  shows "chunk_by_records content chunk_size overlap = chunk_sliding_window content chunk_size overlap"
proof -
  let ?lines = "split_on (CHR 0x0A) [] content"
  obtain l ls where ls: "?lines = l # ls"
    using split_on_nonempty [of "CHR 0x0A" "[]" content] by (cases ?lines) auto
  then have "set l \<subseteq> set content"
    using split_on_chars [of l "CHR 0x0A" "[]" content] by simp
  with assms have "\<not> (CHR '','' \<in> set l \<or> CHR 0x09 \<in> set l)" by auto
  with ls show ?thesis by (simp add: chunk_by_records_def Let_def)
qed

lemma chunk_by_sections_plain:
  assumes "re_split rx SectionPat content = [content]"
  shows "chunk_by_sections rx content chunk_size overlap =
     (if str_split content = [] then chunk_sliding_window content chunk_size overlap
      else Inr [[''text'' \<mapsto> S (join '' '' (str_split content)), ''type'' \<mapsto> S ''section'',
                 ''boundary'' \<mapsto> S ''document_end'']])"
  using assms by (simp add: chunk_by_sections_def sections_step_def Let_def)

lemma chunk_by_messages_plain:
  assumes "re_split rx MessagePat content = [content]"
  shows "chunk_by_messages rx content chunk_size overlap =
     (if strip content = [] then chunk_sliding_window content chunk_size overlap
      else Inr [[''text'' \<mapsto> S content, ''type'' \<mapsto> S ''message'',
                 ''boundary'' \<mapsto> S ''thread_end'']])"
  using assms by (simp add: chunk_by_messages_def message_step_def Let_def)

lemma no_markers_patterns:
  assumes "no_markers rx content"
  shows "filter (\<lambda>pat. re_search rx pat content) [EndpointPat 0, EndpointPat 1, EndpointPat 2] = []"
    and "filter (\<lambda>pat. re_search rx pat content) [ChapterPat 0, ChapterPat 1, ChapterPat 2] = []"
    and "filter (\<lambda>pat. re_search rx pat content) [TimestampPat 0, TimestampPat 1, TimestampPat 2] = []"
  using assms by (simp_all add: no_markers_def)

text \<open>
  What the strategies do on a text without structural markers. The strategies
  \<open>sliding_window\<close>, \<open>conversation_aware\<close>, \<open>record_aware\<close> and \<open>time_aware\<close> (and every
  strategy name that is not in the table) return the output of the sliding window.
  The strategies \<open>section_aware\<close>, \<open>endpoint_aware\<close> and \<open>chapter_aware\<close> return a single
  chunk of type \<open>section\<close> that holds all the words of the text, whatever
  \<open>chunk_size\<close> is, and \<open>message_boundary\<close> a single chunk of type \<open>message\<close> that holds
  the text; these four reach their call of the sliding window only when the text is
  blank.
\<close>

lemma smart_chunk_without_markers:
  assumes "no_markers rx content"
  shows "(strategy \<notin> {''section_aware'', ''endpoint_aware'', ''chapter_aware'', ''message_boundary''} \<longrightarrow>
            smart_chunk rx content strategy chunk_size overlap
              = chunk_sliding_window content chunk_size overlap) \<and>
         (strategy \<in> {''section_aware'', ''endpoint_aware'', ''chapter_aware''} \<longrightarrow>
            smart_chunk rx content strategy chunk_size overlap
              = (if str_split content = [] then chunk_sliding_window content chunk_size overlap
                 else Inr [[''text'' \<mapsto> S (join '' '' (str_split content)), ''type'' \<mapsto> S ''section'',
                            ''boundary'' \<mapsto> S ''document_end'']])) \<and>
         (strategy = ''message_boundary'' \<longrightarrow>
            smart_chunk rx content strategy chunk_size overlap
              = (if strip content = [] then chunk_sliding_window content chunk_size overlap
                 else Inr [[''text'' \<mapsto> S content, ''type'' \<mapsto> S ''message'',
                            ''boundary'' \<mapsto> S ''thread_end'']]))"
proof -
  from assms have sec: "re_split rx SectionPat content = [content]"
    and msg: "re_split rx MessagePat content = [content]"
    and turns: "re_findall_turns rx content = []"
    and plain: "CHR '','' \<notin> set content" "CHR 0x09 \<notin> set content"
    by (simp_all add: no_markers_def)
  note pats = no_markers_patterns [OF assms]
  have conv: "chunk_by_conversation rx content chunk_size overlap
      = chunk_sliding_window content chunk_size overlap"
    using turns by (simp add: chunk_by_conversation_def)
  have recs: "chunk_by_records content chunk_size overlap
      = chunk_sliding_window content chunk_size overlap"
    using plain by (rule chunk_by_records_plain)
  have time: "chunk_by_timestamps rx content chunk_size overlap
      = chunk_sliding_window content chunk_size overlap"
    using pats(3) by (simp add: chunk_by_timestamps_def)
  have endp: "chunk_by_endpoints rx content chunk_size overlap
      = chunk_by_sections rx content chunk_size overlap"
    using pats(1) by (simp add: chunk_by_endpoints_def)
  have chap: "chunk_by_chapters rx content chunk_size overlap
      = chunk_by_sections rx content chunk_size overlap"
    using pats(2) by (simp add: chunk_by_chapters_def)
  note sect = chunk_by_sections_plain [OF sec, of chunk_size overlap]
  note mess = chunk_by_messages_plain [OF msg, of chunk_size overlap]
  show ?thesis
  proof (intro conjI impI)
    assume "strategy \<notin> {''section_aware'', ''endpoint_aware'', ''chapter_aware'', ''message_boundary''}"
    then show "smart_chunk rx content strategy chunk_size overlap
        = chunk_sliding_window content chunk_size overlap"
      by (simp add: smart_chunk_def conv recs time)
  next
    assume "strategy \<in> {''section_aware'', ''endpoint_aware'', ''chapter_aware''}"
    then have "smart_chunk rx content strategy chunk_size overlap
        = chunk_by_sections rx content chunk_size overlap"
      by (auto simp: smart_chunk_def endp chap)
    then show "smart_chunk rx content strategy chunk_size overlap
        = (if str_split content = [] then chunk_sliding_window content chunk_size overlap
           else Inr [[''text'' \<mapsto> S (join '' '' (str_split content)), ''type'' \<mapsto> S ''section'',
                      ''boundary'' \<mapsto> S ''document_end'']])"
      by (simp only: sect)
  next
    assume "strategy = ''message_boundary''"
    then have "smart_chunk rx content strategy chunk_size overlap
        = chunk_by_messages rx content chunk_size overlap"
      by (simp add: smart_chunk_def)
    then show "smart_chunk rx content strategy chunk_size overlap
        = (if strip content = [] then chunk_sliding_window content chunk_size overlap
           else Inr [[''text'' \<mapsto> S content, ''type'' \<mapsto> S ''message'',
                      ''boundary'' \<mapsto> S ''thread_end'']])"
      by (simp only: mess)
  qed
qed

text \<open>
  The call of the sliding window at the end of \<open>chunk_by_sections\<close> and of
  \<open>chunk_by_messages\<close> is reached, on a text without markers, only when the text has no
  word, and then the sliding window has no chunk to give: it returns the empty list, or
  raises \<open>ValueError\<close> when \<open>chunk_size = overlap\<close>.
\<close>

lemma sliding_window_blank:
  assumes "str_split content = []"
  shows "chunk_sliding_window content chunk_size overlap
     = (if chunk_size = overlap then Inl ValueError else Inr [])"
  using assms by (simp add: chunk_sliding_window_def py_range_def range_up.simps range_down.simps)

lemma sections_fallback_blank:
  assumes "re_split rx SectionPat content = [content]"
  shows "chunk_by_sections rx content chunk_size overlap
     = (if str_split content = []
        then (if chunk_size = overlap then Inl ValueError else Inr [])
        else Inr [[''text'' \<mapsto> S (join '' '' (str_split content)), ''type'' \<mapsto> S ''section'',
                   ''boundary'' \<mapsto> S ''document_end'']])"
  using chunk_by_sections_plain [OF assms, of chunk_size overlap]
  by (simp add: sliding_window_blank)

text \<open>
  Claim C6 at the text \<open>a b c d e\<close>, in which no pattern matches, with a window of two
  words and no overlap. The sliding window gives the three chunks \<open>a b\<close>, \<open>c d\<close> and \<open>e\<close>,
  and so do \<open>time_aware\<close>, \<open>conversation_aware\<close> and \<open>record_aware\<close>; \<open>section_aware\<close>,
  \<open>endpoint_aware\<close> and \<open>chapter_aware\<close> give the whole text as one chunk of type
  \<open>section\<close>, and \<open>message_boundary\<close> as one chunk of type \<open>message\<close>.
\<close>

theorem section_aware_keeps_text_whole:
  "no_markers no_match ''a b c d e'' \<and>
   map_sum id (map (\<lambda>c. (c ''text'', c ''type''))) (chunk_sliding_window ''a b c d e'' 2 0)
     = Inr [(Some (S ''a b''), Some (S ''sliding_window'')),
            (Some (S ''c d''), Some (S ''sliding_window'')),
            (Some (S ''e''), Some (S ''sliding_window''))] \<and>
   smart_chunk no_match ''a b c d e'' ''time_aware'' 2 0 = chunk_sliding_window ''a b c d e'' 2 0 \<and>
   smart_chunk no_match ''a b c d e'' ''conversation_aware'' 2 0 = chunk_sliding_window ''a b c d e'' 2 0 \<and>
   smart_chunk no_match ''a b c d e'' ''record_aware'' 2 0 = chunk_sliding_window ''a b c d e'' 2 0 \<and>
   map_sum id (map (\<lambda>c. (c ''text'', c ''type''))) (smart_chunk no_match ''a b c d e'' ''section_aware'' 2 0)
     = Inr [(Some (S ''a b c d e''), Some (S ''section''))] \<and>
   map_sum id (map (\<lambda>c. (c ''text'', c ''type''))) (smart_chunk no_match ''a b c d e'' ''endpoint_aware'' 2 0)
     = Inr [(Some (S ''a b c d e''), Some (S ''section''))] \<and>
   map_sum id (map (\<lambda>c. (c ''text'', c ''type''))) (smart_chunk no_match ''a b c d e'' ''chapter_aware'' 2 0)
     = Inr [(Some (S ''a b c d e''), Some (S ''section''))] \<and>
   map_sum id (map (\<lambda>c. (c ''text'', c ''type''))) (smart_chunk no_match ''a b c d e'' ''message_boundary'' 2 0)
     = Inr [(Some (S ''a b c d e''), Some (S ''message''))]"
proof -
  have m: "no_markers no_match ''a b c d e''"
    by (simp add: no_markers_def no_match_def)
  have w: "map_sum id (map (\<lambda>c. (c ''text'', c ''type''))) (chunk_sliding_window ''a b c d e'' 2 0)
     = Inr [(Some (S ''a b''), Some (S ''sliding_window'')),
            (Some (S ''c d''), Some (S ''sliding_window'')),
            (Some (S ''e''), Some (S ''sliding_window''))]"
    by code_simp
  have t: "smart_chunk no_match ''a b c d e'' ''time_aware'' 2 0 = chunk_sliding_window ''a b c d e'' 2 0"
    "smart_chunk no_match ''a b c d e'' ''conversation_aware'' 2 0 = chunk_sliding_window ''a b c d e'' 2 0"
    "smart_chunk no_match ''a b c d e'' ''record_aware'' 2 0 = chunk_sliding_window ''a b c d e'' 2 0"
    using smart_chunk_without_markers [OF m, of "''time_aware''" 2 0]
      smart_chunk_without_markers [OF m, of "''conversation_aware''" 2 0]
      smart_chunk_without_markers [OF m, of "''record_aware''" 2 0]
    by simp_all
  have s: "map_sum id (map (\<lambda>c. (c ''text'', c ''type''))) (smart_chunk no_match ''a b c d e'' ''section_aware'' 2 0)
     = Inr [(Some (S ''a b c d e''), Some (S ''section''))]"
    by code_simp
  have e: "map_sum id (map (\<lambda>c. (c ''text'', c ''type''))) (smart_chunk no_match ''a b c d e'' ''endpoint_aware'' 2 0)
     = Inr [(Some (S ''a b c d e''), Some (S ''section''))]"
    by code_simp
  have c: "map_sum id (map (\<lambda>c. (c ''text'', c ''type''))) (smart_chunk no_match ''a b c d e'' ''chapter_aware'' 2 0)
     = Inr [(Some (S ''a b c d e''), Some (S ''section''))]"
    by code_simp
  have b: "map_sum id (map (\<lambda>c. (c ''text'', c ''type''))) (smart_chunk no_match ''a b c d e'' ''message_boundary'' 2 0)
     = Inr [(Some (S ''a b c d e''), Some (S ''message''))]"
    by code_simp
  from m w t s e c b show ?thesis by blast
qed

subsection \<open>The crawler\<close>

lemma accept_page_keeps:
  "cs_requests (accept_page w b a m url depth html st) = cs_requests st"
  "cs_robots (accept_page w b a m url depth html st) = cs_robots st"
  by (simp_all add: accept_page_def Let_def split: option.splits)

lemma write_cache_keeps:
  "cs_requests (write_cache h url html st) = cs_requests st"
  "cs_robots (write_cache h url html st) = cs_robots st"
  by (simp_all add: write_cache_def)

lemma robots_allowed_hit:
  assumes "cs_robots st (domain_key w d) = Some e"
  shows "robots_allowed w d url True st = (robots_verdict w e url, st)"
  using assms by (simp add: robots_allowed_def robots_verdict_def Let_def split: option.splits)

lemma robots_allowed_miss:
  assumes "cs_robots st (domain_key w d) = None"
  shows "robots_allowed w d url True st =
     (robots_verdict w (robots_entry w (domain_key w d)) url,
      st\<lparr>cs_requests := cs_requests st @ [RobotsGet (domain_key w d @ ''/robots.txt'')],
         cs_robots := (cs_robots st)(domain_key w d \<mapsto> robots_entry w (domain_key w d))\<rparr>)"
  using assms
  by (simp add: robots_allowed_def robots_verdict_def robots_entry_def Let_def split: option.splits)

lemma load_page_effect:
  "cs_robots (load_page h w b a m url depth st) = cs_robots st"
  "cs_requests (load_page h w b a m url depth st) = cs_requests st \<or>
   cs_requests (load_page h w b a m url depth st) = cs_requests st @ [PageGet url]"
  by (auto simp: load_page_def Let_def accept_page_keeps write_cache_keeps split: option.splits)

lemma crawl_step_cases:
  "crawl_step h w b a m st =
     (case cs_frontier st of
        [] \<Rightarrow> st
      | (url, depth) # rest \<Rightarrow>
          if url \<in> set (cs_seen st) then st\<lparr>cs_frontier := rest\<rparr>
          else if \<not> is_allowed_path w url b a then st\<lparr>cs_frontier := rest, cs_seen := url # cs_seen st\<rparr>
          else if \<not> fst (robots_allowed w b url True (st\<lparr>cs_frontier := rest, cs_seen := url # cs_seen st\<rparr>))
          then snd (robots_allowed w b url True (st\<lparr>cs_frontier := rest, cs_seen := url # cs_seen st\<rparr>))
          else load_page h w b a m url depth
                 (snd (robots_allowed w b url True (st\<lparr>cs_frontier := rest, cs_seen := url # cs_seen st\<rparr>))))"
  by (simp add: crawl_step_def load_page_def Let_def split: list.splits prod.splits option.splits)

lemma robots_allowed_inv:
  assumes "crawl_inv w b a e0 st"
  shows "crawl_inv w b a e0 (snd (robots_allowed w b url True st))"
    and "\<exists>e. cs_robots (snd (robots_allowed w b url True st)) (domain_key w b) = Some e \<and>
             fst (robots_allowed w b url True st) = robots_verdict w e url"
proof -
  show "crawl_inv w b a e0 (snd (robots_allowed w b url True st))"
  proof (cases "cs_robots st (domain_key w b)")
    case None
    with assms have "e0 = None" "cs_requests st = []" by (simp_all add: crawl_inv_def)
    with None show ?thesis by (simp add: robots_allowed_miss crawl_inv_def)
  next
    case (Some e)
    with assms show ?thesis by (simp add: robots_allowed_hit)
  qed
  show "\<exists>e. cs_robots (snd (robots_allowed w b url True st)) (domain_key w b) = Some e \<and>
             fst (robots_allowed w b url True st) = robots_verdict w e url"
  proof (cases "cs_robots st (domain_key w b)")
    case None
    then show ?thesis by (simp add: robots_allowed_miss)
  next
    case (Some e)
    then show ?thesis by (simp add: robots_allowed_hit)
  qed
qed

lemma load_page_inv:
  assumes "crawl_inv w b a e0 st" "is_allowed_path w url b a"
    "cs_robots st (domain_key w b) = Some e" "robots_verdict w e url"
  shows "crawl_inv w b a e0 (load_page h w b a m url depth st)"
proof -
  from load_page_effect(2) [of h w b a m url depth st]
  show ?thesis
  proof
    assume req: "cs_requests (load_page h w b a m url depth st) = cs_requests st"
    show ?thesis
      unfolding crawl_inv_def load_page_effect(1) req
      using assms(1) [unfolded crawl_inv_def] .
  next
    assume req: "cs_requests (load_page h w b a m url depth st) = cs_requests st @ [PageGet url]"
    show ?thesis
      unfolding crawl_inv_def load_page_effect(1) req
      using assms by (auto simp: crawl_inv_def split: option.splits)
  qed
qed

lemma crawl_inv_frontier_seen:
  "crawl_inv w b a e0 (st\<lparr>cs_frontier := f\<rparr>) = crawl_inv w b a e0 st"
  "crawl_inv w b a e0 (st\<lparr>cs_frontier := f, cs_seen := s\<rparr>) = crawl_inv w b a e0 st"
  by (simp_all add: crawl_inv_def cong: option.case_cong)

lemma crawl_inv_step:
  assumes "crawl_inv w b a e0 st"
  shows "crawl_inv w b a e0 (crawl_step h w b a m st)"
proof (cases "cs_frontier st")
  case Nil
  with assms show ?thesis by (simp add: crawl_step_cases)
next
  case (Cons p rest)
  obtain url depth where p: "p = (url, depth)" by (cases p)
  let ?st1 = "st\<lparr>cs_frontier := rest, cs_seen := url # cs_seen st\<rparr>"
  let ?r = "robots_allowed w b url True ?st1"
  have inv1: "crawl_inv w b a e0 ?st1" using assms by (simp add: crawl_inv_frontier_seen)
  note rob = robots_allowed_inv [OF inv1, of url]
  show ?thesis
  proof (cases "url \<in> set (cs_seen st)")
    case True
    with Cons p assms show ?thesis by (simp add: crawl_step_cases crawl_inv_frontier_seen)
  next
    case unseen: False
    show ?thesis
    proof (cases "is_allowed_path w url b a")
      case False
      with unseen Cons p inv1 show ?thesis by (simp add: crawl_step_cases)
    next
      case allowed: True
      show ?thesis
      proof (cases "fst ?r")
        case False
        with unseen allowed Cons p rob(1) show ?thesis by (simp add: crawl_step_cases)
      next
        case True
        from rob(2) True obtain e where
          e: "cs_robots (snd ?r) (domain_key w b) = Some e" "robots_verdict w e url" by auto
        have "crawl_inv w b a e0 (load_page h w b a m url depth (snd ?r))"
          using rob(1) allowed e by (rule load_page_inv)
        with unseen allowed True Cons p show ?thesis by (simp add: crawl_step_cases)
      qed
    qed
  qed
qed

lemma crawl_inv_iter:
  "crawl_inv w b a e0 st \<Longrightarrow> crawl_inv w b a e0 (crawl_iter h w b a m n st)"
  by (induction n arbitrary: st) (simp_all add: crawl_inv_step)

lemma crawl_inv_init:
  "crawl_inv w b a (robots (domain_key w b)) (crawl_init start_url cache robots)"
  by (simp add: crawl_inv_def crawl_init_def split: option.splits)

lemma crawl_run_inv:
  "crawl_inv w (domain_key w start_url) a (robots (domain_key w (domain_key w start_url)))
     (crawl_run h w start_url a m cache robots n)"
  unfolding crawl_run_def by (intro crawl_inv_iter crawl_inv_init)

lemma crawl_loop_iter:
  "crawl_loop h w b a m fuel st = Some st' \<Longrightarrow> \<exists>n. st' = crawl_iter h w b a m n st"
proof (induction fuel arbitrary: st)
  case 0
  then have "st' = crawl_iter h w b a m 0 st" by (simp split: if_splits)
  then show ?case by blast
next
  case (Suc fuel)
  show ?case
  proof (cases "cs_frontier st = []")
    case True
    with Suc.prems have "st' = crawl_iter h w b a m 0 st" by simp
    then show ?thesis by blast
  next
    case False
    with Suc.prems have "crawl_loop h w b a m fuel (crawl_step h w b a m st) = Some st'" by simp
    from Suc.IH [OF this] obtain n where "st' = crawl_iter h w b a m (Suc n) st" by auto
    then show ?thesis by blast
  qed
qed

lemma crawl_website_state:
  "crawl_website h w start_url a m cache robots fuel = Some st \<Longrightarrow>
   \<exists>n. st = crawl_run h w start_url a m cache robots n"
  unfolding crawl_website_def crawl_run_def by (rule crawl_loop_iter)

text \<open>
  Claim C2. At every moment of a crawl, each page request that has been issued is for a
  URL whose network location equals that of the base domain (the scheme and network
  location of the start URL) and whose path (\<open>/\<close> when empty) starts with one of the
  allowed prefixes, an empty list of prefixes allowing every path. Where \<open>urlparse\<close> gives
  the base domain the network location of the start URL, that is the host of the start
  URL.
\<close>

theorem crawl_fetches_only_allowed:
  "PageGet u \<in> set (cs_requests (crawl_run h w start_url allowed_paths max_depth cache robots n)) \<longrightarrow>
     url_netloc w u = url_netloc w (domain_key w start_url) \<and>
     (url_netloc w (domain_key w start_url) = url_netloc w start_url \<longrightarrow>
        url_netloc w u = url_netloc w start_url) \<and>
     (allowed_paths = [] \<or>
      (\<exists>p \<in> set allowed_paths. prefix p (if url_path w u = [] then ''/'' else url_path w u)))"
proof
  assume a: "PageGet u \<in> set (cs_requests (crawl_run h w start_url allowed_paths max_depth cache robots n))"
  have "crawl_inv w (domain_key w start_url) allowed_paths
      (robots (domain_key w (domain_key w start_url)))
      (crawl_run h w start_url allowed_paths max_depth cache robots n)"
    by (rule crawl_run_inv)
  with a have "is_allowed_path w u (domain_key w start_url) allowed_paths"
    by (simp add: crawl_inv_def)
  then show "url_netloc w u = url_netloc w (domain_key w start_url) \<and>
     (url_netloc w (domain_key w start_url) = url_netloc w start_url \<longrightarrow>
        url_netloc w u = url_netloc w start_url) \<and>
     (allowed_paths = [] \<or>
      (\<exists>p \<in> set allowed_paths. prefix p (if url_path w u = [] then ''/'' else url_path w u)))"
    by (auto simp: is_allowed_path_def Let_def list_ex_iff split: if_splits)
qed

text \<open>
  Claim C2 on the example site, crawled from \<open>http://h/docs/a\<close> with the allowed prefix
  \<open>/docs\<close>: the page is requested, and it is on the host \<open>h\<close> under \<open>/docs\<close>.
\<close>

theorem crawl_fetches_only_allowed_witness:
  "PageGet ''http://h/docs/a''
     \<in> set (cs_requests (crawl_run (\<lambda>u. u) site ''http://h/docs/a'' [''/docs''] 1 Map.empty Map.empty 3)) \<and>
   url_netloc site (domain_key site ''http://h/docs/a'') = url_netloc site ''http://h/docs/a'' \<and>
   url_netloc site ''http://h/docs/a'' = ''h'' \<and>
   (\<exists>p \<in> set [''/docs'']. prefix p (url_path site ''http://h/docs/a''))"
proof -
  have a: "PageGet ''http://h/docs/a''
     \<in> set (cs_requests (crawl_run (\<lambda>u. u) site ''http://h/docs/a'' [''/docs''] 1 Map.empty Map.empty 3))"
    by code_simp
  have b: "url_netloc site (domain_key site ''http://h/docs/a'') = url_netloc site ''http://h/docs/a''"
    "url_netloc site ''http://h/docs/a'' = ''h''" "url_path site ''http://h/docs/a'' = ''/docs/a''"
    by code_simp+
  from a b crawl_fetches_only_allowed [of "''http://h/docs/a''" "\<lambda>u. u" site "''http://h/docs/a''"
      "[''/docs'']" 1 Map.empty Map.empty 3]
  show ?thesis by simp
qed

text \<open>
  Claim C3, as amended. A call of \<open>_robots_allowed\<close> for a host whose entry is cached issues
  no request and leaves the state as it is; for a host that is not cached it issues one
  request for the robots.txt of the host and caches the outcome. The outcome is
  ``no restrictions'' when the request fails, when the status is not 200 or when the
  content type contains \<open>text/html\<close>; a response with status 200 and any other content type
  is parsed, and the verdict on a URL is that of the parsed file. During a crawl at most
  one robots.txt request is issued, none at all when the host was cached before, and a
  page is requested only if the entry of the host permits it.
\<close>

theorem robots_txt_policy:
  "(cs_robots st (domain_key w d) = Some e \<longrightarrow>
      robots_allowed w d url True st = (robots_verdict w e url, st)) \<and>
   (cs_robots st (domain_key w d) = None \<longrightarrow>
      cs_requests (snd (robots_allowed w d url True st))
        = cs_requests st @ [RobotsGet (domain_key w d @ ''/robots.txt'')] \<and>
      cs_robots (snd (robots_allowed w d url True st)) (domain_key w d)
        = Some (robots_entry w (domain_key w d)) \<and>
      fst (robots_allowed w d url True st) = robots_verdict w (robots_entry w (domain_key w d)) url) \<and>
   (web_get w (domain_key w d @ ''/robots.txt'') = None \<or>
    (\<exists>r. web_get w (domain_key w d @ ''/robots.txt'') = Some r \<and>
         (resp_status r \<noteq> 200 \<or> contains ''text/html'' (resp_content_type r))) \<longrightarrow>
      (\<forall>u. robots_verdict w (robots_entry w (domain_key w d)) u)) \<and>
   (\<forall>r. web_get w (domain_key w d @ ''/robots.txt'') = Some r \<and> resp_status r = 200 \<and>
        \<not> contains ''text/html'' (resp_content_type r) \<longrightarrow>
      (\<forall>u. robots_verdict w (robots_entry w (domain_key w d)) u
            = robots_can_fetch w (resp_text r) user_agent u)) \<and>
   length (filter is_robots_get
             (cs_requests (crawl_run h w start_url allowed_paths max_depth cache robots n))) \<le> 1 \<and>
   (robots (domain_key w (domain_key w start_url)) \<noteq> None \<longrightarrow>
      filter is_robots_get
        (cs_requests (crawl_run h w start_url allowed_paths max_depth cache robots n)) = []) \<and>
   (\<forall>u. PageGet u \<in> set (cs_requests (crawl_run h w start_url allowed_paths max_depth cache robots n)) \<longrightarrow>
      robots_verdict w
        (case robots (domain_key w (domain_key w start_url)) of
           Some e' \<Rightarrow> e' | None \<Rightarrow> robots_entry w (domain_key w (domain_key w start_url))) u)"
proof -
  let ?S = "crawl_run h w start_url allowed_paths max_depth cache robots n"
  let ?k = "domain_key w (domain_key w start_url)"
  have inv: "crawl_inv w (domain_key w start_url) allowed_paths (robots ?k) ?S"
    by (rule crawl_run_inv)
  have once: "length (filter is_robots_get (cs_requests ?S)) \<le> 1"
    using inv by (auto simp: crawl_inv_def split: option.splits)
  have cached: "robots ?k \<noteq> None \<longrightarrow> filter is_robots_get (cs_requests ?S) = []"
    using inv by (auto simp: crawl_inv_def split: option.splits)
  have gate: "\<forall>u. PageGet u \<in> set (cs_requests ?S) \<longrightarrow>
      robots_verdict w (case robots ?k of Some e' \<Rightarrow> e' | None \<Rightarrow> robots_entry w ?k) u"
    using inv by (auto simp: crawl_inv_def split: option.splits)
  have hit: "cs_robots st (domain_key w d) = Some e \<longrightarrow>
      robots_allowed w d url True st = (robots_verdict w e url, st)"
    by (simp add: robots_allowed_hit)
  have miss: "cs_robots st (domain_key w d) = None \<longrightarrow>
      cs_requests (snd (robots_allowed w d url True st))
        = cs_requests st @ [RobotsGet (domain_key w d @ ''/robots.txt'')] \<and>
      cs_robots (snd (robots_allowed w d url True st)) (domain_key w d)
        = Some (robots_entry w (domain_key w d)) \<and>
      fst (robots_allowed w d url True st) = robots_verdict w (robots_entry w (domain_key w d)) url"
    by (simp add: robots_allowed_miss)
  have open_: "web_get w (domain_key w d @ ''/robots.txt'') = None \<or>
    (\<exists>r. web_get w (domain_key w d @ ''/robots.txt'') = Some r \<and>
         (resp_status r \<noteq> 200 \<or> contains ''text/html'' (resp_content_type r))) \<longrightarrow>
      (\<forall>u. robots_verdict w (robots_entry w (domain_key w d)) u)"
    by (auto simp: robots_entry_def robots_verdict_def)
  have parsed: "\<forall>r. web_get w (domain_key w d @ ''/robots.txt'') = Some r \<and> resp_status r = 200 \<and>
        \<not> contains ''text/html'' (resp_content_type r) \<longrightarrow>
      (\<forall>u. robots_verdict w (robots_entry w (domain_key w d)) u
            = robots_can_fetch w (resp_text r) user_agent u)"
    by (auto simp: robots_entry_def robots_verdict_def)
  from hit miss open_ parsed once cached gate show ?thesis by blast
qed

text \<open>
  Claim C3 on the example site, whose robots.txt is not cached at the start: the verdict
  on \<open>/private/b\<close> is negative and the page is never requested, the verdict on
  \<open>/docs/a\<close> is positive.
\<close>

theorem robots_txt_policy_witness:
  "cs_robots (crawl_init ''http://h'' Map.empty Map.empty) (domain_key site ''http://h'') = None \<and>
   fst (robots_allowed site ''http://h'' ''http://h/private/b'' True
          (crawl_init ''http://h'' Map.empty Map.empty)) = False \<and>
   fst (robots_allowed site ''http://h'' ''http://h/docs/a'' True
          (crawl_init ''http://h'' Map.empty Map.empty)) = True \<and>
   PageGet ''http://h/private/b''
     \<notin> set (cs_requests (crawl_run (\<lambda>u. u) site ''http://h'' [] 1 Map.empty Map.empty 6))"
proof -
  let ?st = "crawl_init ''http://h'' Map.empty Map.empty"
  have c: "cs_robots ?st (domain_key site ''http://h'') = None"
    by (simp add: crawl_init_def)
  have k: "domain_key site (domain_key site ''http://h'') = domain_key site ''http://h''"
    by code_simp
  have v1: "robots_verdict site (robots_entry site (domain_key site ''http://h'')) ''http://h/private/b'' = False"
    by code_simp
  have v2: "robots_verdict site (robots_entry site (domain_key site ''http://h'')) ''http://h/docs/a'' = True"
    by code_simp
  note p = robots_txt_policy [where w = site and d = "''http://h''" and st = ?st
      and h = "\<lambda>u. u" and start_url = "''http://h''" and allowed_paths = "[]" and max_depth = 1
      and cache = Map.empty and robots = Map.empty and n = 6]
  note p1 = p [where url = "''http://h/private/b''"]
  note p2 = p [where url = "''http://h/docs/a''"]
  from p1 c have a: "fst (robots_allowed site ''http://h'' ''http://h/private/b'' True ?st)
      = robots_verdict site (robots_entry site (domain_key site ''http://h'')) ''http://h/private/b''"
    by blast
  from p2 c have b: "fst (robots_allowed site ''http://h'' ''http://h/docs/a'' True ?st)
      = robots_verdict site (robots_entry site (domain_key site ''http://h'')) ''http://h/docs/a''"
    by blast
  from p1 have "PageGet ''http://h/private/b''
        \<in> set (cs_requests (crawl_run (\<lambda>u. u) site ''http://h'' [] 1 Map.empty Map.empty 6)) \<longrightarrow>
      robots_verdict site (robots_entry site (domain_key site (domain_key site ''http://h''))) ''http://h/private/b''"
    by simp
  with v1 k have d: "PageGet ''http://h/private/b''
        \<notin> set (cs_requests (crawl_run (\<lambda>u. u) site ''http://h'' [] 1 Map.empty Map.empty 6))"
    by auto
  from c a b d v1 v2 show ?thesis by simp
qed

text \<open>
  Claim C3 as stated fails: the robots.txt of the example site is served with status 200
  and the content type \<open>text/plain\<close>, a response that is not \<open>text/html\<close>; it is not treated
  as ``no restrictions'', the URL \<open>/private/b\<close> is refused.
\<close>

theorem robots_plain_text_counterexample:
  "web_get site ''http://h/robots.txt''
     = Some \<lparr>resp_status = 200, resp_content_type = ''text/plain'', resp_text = robots_body\<rparr> \<and>
   \<not> contains ''text/html'' ''text/plain'' \<and>
   fst (robots_allowed site ''http://h'' ''http://h/private/b'' True
          (crawl_init ''http://h'' Map.empty Map.empty)) = False"
  by code_simp

subsection \<open>Chunk identifiers\<close>

declare show_nat.simps [simp del]

lemma sha1_hex_length: "length (sha1_hex text) = 40"
  by (simp add: sha1_hex_def hex_word_def Let_def split: prod.splits)

lemma chunk_docs_fold:
  "map fst (fold (\<lambda>(idx, chunk) docs.
             if int (length chunk) < cfg_min_text_len cfg then docs
             else docs @ [(h origin @ ''_'' @ show_nat idx @ ''_'' @ take 8 (h chunk), t chunk, m idx)])
       xs acc)
   = map fst acc @ map (\<lambda>(idx, chunk). chunk_id h origin idx chunk)
       (filter (\<lambda>(idx, chunk). \<not> int (length chunk) < cfg_min_text_len cfg) xs)"
  by (induction xs arbitrary: acc) (auto simp: chunk_id_def)

lemma chunk_docs_ids:
  "map fst (chunk_docs h cfg origin source_name metadata chunks) = origin_ids h cfg origin chunks"
  unfolding chunk_docs_def origin_ids_def
  using chunk_docs_fold [where cfg = cfg and h = h and origin = origin and m = metadata
      and xs = "enumerate 0 chunks" and acc = "[]"
      and t = "\<lambda>chunk. chunk @ [CHR 0x0A, CHR 0x0A] @ ''(Source: '' @ source_name @ '')''"]
  by simp

lemma origin_ids_Nil: "origin_ids h cfg origin [] = []"
  by (simp add: origin_ids_def)

lemma web_docs_fold:
  "map fst (fold (\<lambda>(url, html) docs.
             let md = html_to_md html
             in if md = [] \<or> length md < 100 then docs
                else
                  let chunks = ingest_chunk md (cfg_chunk_tokens cfg) (cfg_chunk_overlap cfg)
                  in if chunks = [] then docs
                     else docs @ chunk_docs h cfg url url (meta url) chunks)
       raw acc)
   = map fst acc @ concat (map (\<lambda>(url, html). origin_ids h cfg url (text_chunks cfg (html_to_md html))) raw)"
  by (induction raw arbitrary: acc)
     (auto simp: Let_def text_chunks_def chunk_docs_ids origin_ids_Nil)

lemma web_docs_ids:
  "map fst (web_docs h html_to_md cfg raw)
     = concat (map (\<lambda>(url, html). origin_ids h cfg url (text_chunks cfg (html_to_md html))) raw)"
  unfolding web_docs_def
  using web_docs_fold [where html_to_md = html_to_md and cfg = cfg and h = h and raw = raw
      and acc = "[]" and meta = "\<lambda>url idx. [''source_url'' \<mapsto> S url,
          ''chunk_index'' \<mapsto> I (int idx), ''source_type'' \<mapsto> S ''web'']"]
  by simp

lemma local_docs_fold:
  "map fst (fold (\<lambda>filepath docs.
             case parse_file filepath of
               None \<Rightarrow> docs
             | Some (content, filename) \<Rightarrow>
                 if content = [] \<or> length content < 100 then docs
                 else
                   let chunks = ingest_chunk content (cfg_chunk_tokens cfg) (cfg_chunk_overlap cfg)
                   in if chunks = [] then docs
                      else docs @ chunk_docs h cfg filepath filename (meta filepath filename) chunks)
       files acc)
   = map fst acc @ concat (map (\<lambda>filepath.
         case parse_file filepath of
           None \<Rightarrow> []
         | Some (content, filename) \<Rightarrow> origin_ids h cfg filepath (text_chunks cfg content)) files)"
  by (induction files arbitrary: acc)
     (auto simp: Let_def text_chunks_def chunk_docs_ids origin_ids_Nil split: option.splits)

lemma local_docs_ids:
  "map fst (local_docs h parse_file cfg files)
     = concat (map (\<lambda>filepath.
         case parse_file filepath of
           None \<Rightarrow> []
         | Some (content, filename) \<Rightarrow> origin_ids h cfg filepath (text_chunks cfg content)) files)"
  unfolding local_docs_def
  using local_docs_fold [where parse_file = parse_file and cfg = cfg and h = h and files = files
      and acc = "[]" and meta = "\<lambda>filepath filename idx. [''source_path'' \<mapsto> S filepath,
          ''filename'' \<mapsto> S filename, ''chunk_index'' \<mapsto> I (int idx), ''source_type'' \<mapsto> S ''local'']"]
  by simp

lemma numbered_add:
  assumes "numbered h names all_chunks" "filename \<in> names"
  shows "numbered h names (add_chunk h filename chunk_data all_chunks)"
  using assms by (auto simp: numbered_def add_chunk_def nth_append chunk_id_def less_Suc_eq)

lemma numbered_fold_add:
  assumes "numbered h names all_chunks" "filename \<in> names"
  shows "numbered h names (fold (add_chunk h filename) chunks all_chunks)"
  using assms by (induction chunks arbitrary: all_chunks) (simp_all add: numbered_add)

lemma numbered_process_file:
  assumes "numbered h names (fst st)" "item_name file \<in> names"
  shows "numbered h names (fst (process_file h env file st))"
  using assms
  by (cases st)
     (auto simp: process_file_def Let_def numbered_fold_add split: option.splits sum.splits source_type.splits)

lemma numbered_fold_process:
  assumes "numbered h names (fst st)" "item_name ` set files \<subseteq> names"
  shows "numbered h names (fst (fold (process_file h env) files st))"
  using assms
proof (induction files arbitrary: st)
  case Nil
  then show ?case by simp
next
  case (Cons f fs)
  have "numbered h names (fst (process_file h env f st))"
    using Cons.prems by (intro numbered_process_file) auto
  then show ?case using Cons.IH Cons.prems by simp
qed

lemma process_files_numbered: "numbered h (item_name ` set files) (process_files h env files)"
  unfolding process_files_def
  by (rule numbered_fold_process) (simp_all add: numbered_def)

lemma two_pages:
  "process_files h plain_env [page_a, page_b] =
     [\<lparr>ic_id = chunk_id h ''http://h/a'' 0 sixty_words, ic_text = sixty_words,
       ic_source = ''http://h/a'', ic_chunk_type = ''sliding_window'', ic_chunk_index = 0\<rparr>,
      \<lparr>ic_id = chunk_id h ''http://h/b'' 1 sixty_words, ic_text = sixty_words,
       ic_source = ''http://h/b'', ic_chunk_type = ''sliding_window'', ic_chunk_index = 1\<rparr>]"
  by code_simp

lemma one_page:
  "process_files h plain_env [page_b] =
     [\<lparr>ic_id = chunk_id h ''http://h/b'' 0 sixty_words, ic_text = sixty_words,
       ic_source = ''http://h/b'', ic_chunk_type = ''sliding_window'', ic_chunk_index = 0\<rparr>]"
  by code_simp

lemma chunk_id_number: "chunk_id h origin (Suc 0) text \<noteq> chunk_id h origin 0 text"
  by (simp add: chunk_id_def show_nat.simps)

lemma local_file:
  "process_files h plain_env [\<lparr>fi_type = Local, fi_path = ''/d/notes.txt'', fi_content = []\<rparr>] =
     [\<lparr>ic_id = chunk_id h ''notes.txt'' 0 sixty_words, ic_text = sixty_words,
       ic_source = ''notes.txt'', ic_chunk_type = ''section'', ic_chunk_index = 0\<rparr>]"
  by code_simp

text \<open>
  The identifiers of \<open>ingest_profile\<close>, by \<open>web_docs_ids\<close> and \<open>local_docs_ids\<close>: the chunks
  of an origin (the URL of a page, the path of a local file) have \<open>_hash(origin)\<close>, the
  index of the chunk in the list of the chunks of that origin, and the first eight
  digits of \<open>_hash(chunk)\<close>, for the chunks that are not shorter than \<open>min_text_len\<close>.
  The identifiers of \<open>_run_ingestion\<close>, by \<open>process_files_numbered\<close>: the record at position
  \<open>k\<close> of \<open>all_chunks\<close> has \<open>_hash(name)\<close>, the number \<open>k\<close> and the first eight digits of
  the hash of its text, where the name is the URL of a page and the base name of the
  path of a local file, and \<open>k\<close> counts the chunks of the whole run.
\<close>

lemma two_pages_profile:
  "map fst (web_docs h (\<lambda>html. html) default_ingest
              [(''http://h/a'', sixty_words), (''http://h/b'', sixty_words)])
     = [chunk_id h ''http://h/a'' 0 sixty_words, chunk_id h ''http://h/b'' 0 sixty_words]"
  unfolding web_docs_ids by code_simp

lemma one_page_profile:
  "map fst (web_docs h (\<lambda>html. html) default_ingest [(''http://h/b'', sixty_words)])
     = [chunk_id h ''http://h/b'' 0 sixty_words]"
  unfolding web_docs_ids by code_simp

lemma local_file_profile:
  "map fst (local_docs h (\<lambda>path. Some (sixty_words, path_name path)) default_ingest [''/d/notes.txt''])
     = [chunk_id h ''/d/notes.txt'' 0 sixty_words]"
  unfolding local_docs_ids by code_simp

text \<open>
  Claim C1 on the pages \<open>http://h/a\<close> and \<open>http://h/b\<close>, of sixty words each, and on the
  local file \<open>/d/notes.txt\<close>, with SHA-1 as the hash. In \<open>ingest_profile\<close> the only chunk
  of the page \<open>http://h/b\<close> has the number 0 of its place among the chunks of that page,
  whether the page is ingested alone or after \<open>http://h/a\<close>, and the file is hashed under
  its path, as the claim says. In \<open>_run_ingestion\<close> the same chunk has the number 0 when
  its page is ingested alone and the number 1 when \<open>http://h/a\<close> is ingested before it in
  the same run, so that its identifier changes although origin, sequence number and
  text are the same; and the file is hashed under its base name \<open>notes.txt\<close>.
\<close>

theorem run_ingestion_counts_across_origins:
  "map fst (web_docs sha1_hex (\<lambda>html. html) default_ingest [(''http://h/b'', sixty_words)])
     = [chunk_id sha1_hex ''http://h/b'' 0 sixty_words] \<and>
   map fst (web_docs sha1_hex (\<lambda>html. html) default_ingest
              [(''http://h/a'', sixty_words), (''http://h/b'', sixty_words)])
     = [chunk_id sha1_hex ''http://h/a'' 0 sixty_words, chunk_id sha1_hex ''http://h/b'' 0 sixty_words] \<and>
   map ic_id (process_files sha1_hex plain_env [page_b])
     = [chunk_id sha1_hex ''http://h/b'' 0 sixty_words] \<and>
   map ic_id (process_files sha1_hex plain_env [page_a, page_b])
     = [chunk_id sha1_hex ''http://h/a'' 0 sixty_words, chunk_id sha1_hex ''http://h/b'' 1 sixty_words] \<and>
   map ic_source (process_files sha1_hex plain_env [page_a, page_b]) = [''http://h/a'', ''http://h/b''] \<and>
   map ic_text (process_files sha1_hex plain_env [page_a, page_b]) = [sixty_words, sixty_words] \<and>
   chunk_id sha1_hex ''http://h/b'' 1 sixty_words \<noteq> chunk_id sha1_hex ''http://h/b'' 0 sixty_words \<and>
   map fst (local_docs sha1_hex (\<lambda>path. Some (sixty_words, path_name path)) default_ingest [''/d/notes.txt''])
     = [chunk_id sha1_hex ''/d/notes.txt'' 0 sixty_words] \<and>
   map ic_id (process_files sha1_hex plain_env
                [\<lparr>fi_type = Local, fi_path = ''/d/notes.txt'', fi_content = []\<rparr>])
     = [chunk_id sha1_hex ''notes.txt'' 0 sixty_words]"
  by (simp add: one_page two_pages local_file one_page_profile two_pages_profile
      local_file_profile chunk_id_number)

end
